theory Spec2Isabelle
  imports Complex_Main "HOL-Library.Sublist" "HOL-Library.AList"
begin

section \<open>The annotation pipeline of \<^verbatim>\<open>src/main.py\<close>\<close>

text \<open>
  The development embeds \<^verbatim>\<open>extract_segment\<close> and \<^verbatim>\<open>process_audio_file\<close>. The three
  models (voice activity detection, speech recognition, emotion classification) are
  collaborators of the code and appear as functions of a record; a float is the
  rational number it denotes, and a division or product of the program is rounded
  to a double; the results folder is an association list from file names to file
  contents.
\<close>

subsection \<open>Python values and errors\<close>

datatype py_error = IndexError | ValueError | OSError

text \<open>What a call hands back to its caller: \<^verbatim>\<open>None\<close>, or a list of result records.\<close>

record annotated_segment =
  Language :: string
  Emotion :: string
  Audio_Type :: string
  Text :: string

datatype result_dict = OverallEmotion string | AnnotatedSegment annotated_segment

datatype py_value = PyNone | PyResults "result_dict list"

subsection \<open>String operations\<close>

text \<open>
  A \<^typ>\<open>string\<close> is a list of characters read as the code points 0 to 255.
  \<^verbatim>\<open>str.split(sep)\<close> scans from the left and cuts at every match of the separator,
  matches not overlapping. Python raises \<^verbatim>\<open>ValueError\<close> for an empty separator; the
  program only passes the two markers, and here an empty separator never matches.
\<close>

function split_from :: "'a list \<Rightarrow> 'a list \<Rightarrow> 'a list \<Rightarrow> 'a list list" where
  "split_from sep cur [] = [cur]"
| "split_from sep cur (c # cs) =
     (if sep \<noteq> [] \<and> prefix sep (c # cs)
      then cur # split_from sep [] (drop (length sep) (c # cs))
      else split_from sep (cur @ [c]) cs)"
  by pat_completeness auto
termination
  by (relation "measure (\<lambda>(sep, cur, s). length s)") auto

definition split :: "'a list \<Rightarrow> 'a list \<Rightarrow> 'a list list" where
  "split sep s = split_from sep [] s"

text \<open>\<^verbatim>\<open>sep in s\<close>: the separator occurs somewhere in the string.\<close>

fun contains :: "'a list \<Rightarrow> 'a list \<Rightarrow> bool" where
  "contains sep [] = (sep = [])"
| "contains sep (c # cs) = (prefix sep (c # cs) \<or> contains sep cs)"

text \<open>\<^verbatim>\<open>sep.join(parts)\<close>, used to say what a split is.\<close>

fun join :: "'a list \<Rightarrow> 'a list list \<Rightarrow> 'a list" where
  "join sep [] = []"
| "join sep [p] = p"
| "join sep (p # q # ps) = p @ sep @ join sep (q # ps)"

text \<open>
  \<^verbatim>\<open>str.isspace\<close> on the code points below 256: tab, line feed, vertical tab, form
  feed, carriage return, the separators 0x1c to 0x1f, space, next line (0x85) and
  no-break space (0xa0). \<^verbatim>\<open>str.strip()\<close> drops such characters at both ends.
\<close>

definition isspace :: "char \<Rightarrow> bool" where
  "isspace c = (of_char c \<in> {9, 10, 11, 12, 13, 28, 29, 30, 31, 32, 133, 160 :: nat})"

definition strip :: "string \<Rightarrow> string" where
  "strip s = rev (dropWhile isspace (rev (dropWhile isspace s)))"

definition endswith :: "'a list \<Rightarrow> 'a list \<Rightarrow> bool" where
  "endswith s suf = suffix suf s"

text \<open>
  Positions of a marker, in the words of the specification: \<open>a\<close> is the text before
  the first occurrence of \<open>sep\<close> in \<open>s\<close>, and \<open>t\<close> is the text after the last one.
\<close>

definition before_first :: "'a list \<Rightarrow> 'a list \<Rightarrow> 'a list \<Rightarrow> bool" where
  "before_first sep s a \<longleftrightarrow>
     (\<exists>rest. s = a @ sep @ rest) \<and>
     (\<forall>a' rest'. s = a' @ sep @ rest' \<longrightarrow> length a \<le> length a')"

definition after_last :: "'a list \<Rightarrow> 'a list \<Rightarrow> 'a list \<Rightarrow> bool" where
  "after_last sep s t \<longleftrightarrow>
     (\<exists>pre. s = pre @ sep @ t) \<and>
     (\<forall>pre' t'. s = pre' @ sep @ t' \<longrightarrow> length t \<le> length t')"

subsection \<open>The tag parser (lines 85 to 104)\<close>

text \<open>
  The loop over \<^verbatim>\<open>parts\<close> appends, for every part that contains the closing marker,
  the stripped text before its first closing marker. With four fields or more the
  program also reads field 3 into a variable that it never uses.
\<close>

definition extracted_info :: "string \<Rightarrow> string list" where
  "extracted_info text_content =
     map (\<lambda>part. strip (hd (split ''|>'' part)))
       (filter (contains ''|>'') (split ''<|'' text_content))"

definition tag_record :: "string \<Rightarrow> string \<Rightarrow> annotated_segment option" where
  "tag_record text_content best_emotion =
     (let info = extracted_info text_content in
      if 4 \<le> length info
      then Some \<lparr>Language = info ! 0, Emotion = best_emotion, Audio_Type = info ! 2,
                 Text = strip (last (split ''|>'' text_content))\<rparr>
      else None)"

subsection \<open>Double-precision arithmetic\<close>

text \<open>
  The finite doubles are the rationals \<open>k * 2 ^ e\<close> with \<open>k\<close> of at most 53 bits and \<open>e\<close>
  at least -1074. An operation of the program yields the double nearest to the exact
  result, the one with the even significand when two are equally near. Results of
  magnitude \<open>2 ^ 1024\<close> or more, which the program turns into an infinity or an
  \<^verbatim>\<open>OverflowError\<close>, are outside what is modelled here.
\<close>

text \<open>\<^verbatim>\<open>n.bit_length()\<close> of an integer that is not negative.\<close>

function bit_length :: "int \<Rightarrow> int" where
  "bit_length n = (if n \<le> 0 then 0 else 1 + bit_length (n div 2))"
  by pat_completeness auto
termination
  by (relation "measure nat") auto

definition pow2 :: "int \<Rightarrow> rat" where
  "pow2 e = (if 0 \<le> e then 2 ^ nat e else 1 / 2 ^ nat (- e))"

text \<open>Rounding to the nearest integer, a tie going to the even one (also \<^verbatim>\<open>round(x)\<close>).\<close>

definition round_half_even :: "rat \<Rightarrow> int" where
  "round_half_even x =
     (let f = \<lfloor>x\<rfloor>; d = x - of_int f
      in if d < 1 / 2 then f
         else if 1 / 2 < d then f + 1
         else if even f then f else f + 1)"

text \<open>
  The exponent of the last place of the double format at \<open>x\<close>: the \<open>e\<close> with
  \<open>2 ^ 52 \<le> \<bar>x\<bar> / 2 ^ e < 2 ^ 53\<close>, and -1074 where that would be lower. The bit
  lengths of numerator and denominator leave two candidates.
\<close>

definition double_exponent :: "rat \<Rightarrow> int" where
  "double_exponent x =
     (let (p, q) = quotient_of \<bar>x\<bar>;
          e0 = bit_length p - bit_length q - 53;
          e1 = (if \<bar>x\<bar> / pow2 e0 < 2 ^ 53 then e0 else e0 + 1)
      in max e1 (- 1074))"

definition double_round :: "rat \<Rightarrow> rat" where
  "double_round x =
     (if x = 0 then 0
      else of_int (round_half_even (x / pow2 (double_exponent x))) * pow2 (double_exponent x))"

text \<open>
  \<^verbatim>\<open>a / b\<close> of two integers is the double nearest to the exact quotient (the program
  divides by the literal 16000 only). \<^verbatim>\<open>t * r\<close> of a float and an integer converts the
  integer to a double and rounds the product.
\<close>

definition float_div :: "int \<Rightarrow> int \<Rightarrow> rat" where
  "float_div a b = double_round (of_int a / of_int b)"

definition float_mul :: "rat \<Rightarrow> int \<Rightarrow> rat" where
  "float_mul t r = double_round (t * double_round (of_int r))"

subsection \<open>Slices and the segment extractor (lines 45 to 49)\<close>

text \<open>
  \<^verbatim>\<open>xs[start:stop]\<close>: a negative index counts from the end of the sequence, then
  both indices are brought into the range from 0 to the length; the slice is empty
  when the upper index is not above the lower one. No index raises.
\<close>

definition py_slice :: "'a list \<Rightarrow> int \<Rightarrow> int \<Rightarrow> 'a list" where
  "py_slice xs start stop =
     (let n = int (length xs);
          lo = (if start < 0 then max (start + n) 0 else min start n);
          hi = (if stop < 0 then max (stop + n) 0 else min stop n)
      in take (nat (hi - lo)) (drop (nat lo) xs))"

text \<open>\<^verbatim>\<open>int(x)\<close> of a float: truncation toward zero.\<close>

definition py_int :: "rat \<Rightarrow> int" where
  "py_int x = (if x < 0 then \<lceil>x\<rceil> else \<lfloor>x\<rfloor>)"

definition extract_segment :: "'a list \<Rightarrow> rat \<Rightarrow> rat \<Rightarrow> int \<Rightarrow> 'a list" where
  "extract_segment audio start_time end_time sample_rate =
     (let start_sample = py_int (float_mul start_time sample_rate);
          end_sample = py_int (float_mul end_time sample_rate);
          segment = py_slice audio start_sample end_sample
      in segment)"

text \<open>
  The extractor in the words of the specification, for comparison: indices rounded to
  the nearest integer, and a range cut to the buffer by clamping both indices.
\<close>

definition extract_segment_rounded :: "'a list \<Rightarrow> rat \<Rightarrow> rat \<Rightarrow> int \<Rightarrow> 'a list" where
  "extract_segment_rounded audio start_time end_time sample_rate =
     py_slice audio (round_half_even (float_mul start_time sample_rate))
       (round_half_even (float_mul end_time sample_rate))"

definition clamped_slice :: "'a list \<Rightarrow> int \<Rightarrow> int \<Rightarrow> 'a list" where
  "clamped_slice xs start stop =
     (let lo = max 0 (min start (int (length xs)));
          hi = max 0 (min stop (int (length xs)))
      in take (nat (hi - lo)) (drop (nat lo) xs))"

subsection \<open>The label of the highest score (lines 56 to 57 and 82 to 83)\<close>

record 's emotion_result =
  labels :: "string list"
  scores :: "'s list"

text \<open>
  \<^verbatim>\<open>max(xs)\<close> keeps the first of the greatest elements and raises on an empty list;
  \<^verbatim>\<open>xs.index(v)\<close> is the first position holding \<open>v\<close> and raises when there is none.
\<close>

fun py_max :: "'s::linorder list \<Rightarrow> py_error + 's" where
  "py_max [] = Inl ValueError"
| "py_max (x # xs) = Inr (fold (\<lambda>y m. if m < y then y else m) xs x)"

fun py_index :: "'s list \<Rightarrow> 's \<Rightarrow> py_error + nat" where
  "py_index [] v = Inl ValueError"
| "py_index (x # xs) v =
     (if x = v then Inr 0
      else case py_index xs v of Inl err \<Rightarrow> Inl err | Inr i \<Rightarrow> Inr (Suc i))"

text \<open>
  The program writes the same three steps for the whole file and for every segment:
  the first entry of the classifier's output, the index of its greatest score, the
  label at that index.
\<close>

definition best_emotion :: "'s::linorder emotion_result list \<Rightarrow> py_error + string" where
  "best_emotion rec_result =
     (case rec_result of
        [] \<Rightarrow> Inl IndexError
      | r # _ \<Rightarrow>
          (case py_max (scores r) of
             Inl err \<Rightarrow> Inl err
           | Inr m \<Rightarrow>
               (case py_index (scores r) m of
                  Inl err \<Rightarrow> Inl err
                | Inr best_label_index \<Rightarrow>
                    if best_label_index < length (labels r)
                    then Inr (labels r ! best_label_index)
                    else Inl IndexError)))"

text \<open>The classifier's contract: one entry at least, with a score, and a label for every score.\<close>

definition well_formed :: "'s emotion_result list \<Rightarrow> bool" where
  "well_formed rec_result \<longleftrightarrow>
     rec_result \<noteq> [] \<and> scores (hd rec_result) \<noteq> [] \<and>
     length (scores (hd rec_result)) \<le> length (labels (hd rec_result))"

text \<open>
  In the words of the specification: \<open>i\<close> is the first index of the greatest score.
\<close>

definition first_max_index :: "'s::linorder list \<Rightarrow> nat \<Rightarrow> bool" where
  "first_max_index xs i \<longleftrightarrow>
     i < length xs \<and> (\<forall>j<length xs. xs ! j \<le> xs ! i) \<and> (\<forall>j<i. xs ! j < xs ! i)"

subsection \<open>Paths and file names\<close>

definition RESULTS_FOLDER :: string where
  "RESULTS_FOLDER = ''./results''"

text \<open>\<^verbatim>\<open>s.rfind(c)\<close>: the last position of a character, or -1.\<close>

definition rfind :: "string \<Rightarrow> char \<Rightarrow> int" where
  "rfind s c =
     (if c \<in> set s then int (length s) - 1 - int (length (takeWhile (\<lambda>x. x \<noteq> c) (rev s)))
      else - 1)"

text \<open>The functions of \<^verbatim>\<open>os.path\<close> on POSIX paths.\<close>

definition basename :: "string \<Rightarrow> string" where
  "basename p = drop (nat (rfind p (CHR ''/'') + 1)) p"

definition splitext :: "string \<Rightarrow> string \<times> string" where
  "splitext p =
     (let sepIndex = rfind p (CHR ''/''); dotIndex = rfind p (CHR ''.'')
      in if sepIndex < dotIndex \<and>
            (\<exists>k \<in> set [nat (sepIndex + 1) ..< nat dotIndex]. p ! k \<noteq> CHR ''.'')
         then (take (nat dotIndex) p, drop (nat dotIndex) p)
         else (p, []))"

definition path_join :: "string \<Rightarrow> string \<Rightarrow> string" where
  "path_join a b =
     (if prefix ''/'' b then b
      else if a = [] \<or> endswith a ''/'' then a @ b
      else a @ ''/'' @ b)"

text \<open>\<^verbatim>\<open>str(n)\<close> of a natural number, in decimal.\<close>

fun str_nat :: "nat \<Rightarrow> string" where
  "str_nat n =
     (if n < 10 then [''0123456789'' ! n]
      else str_nat (n div 10) @ [''0123456789'' ! (n mod 10)])"

subsection \<open>The collaborators\<close>

text \<open>
  The voice activity detector returns sample ranges (the keys \<^verbatim>\<open>start\<close> and
  \<^verbatim>\<open>end\<close>). The recogniser returns a list of dictionaries, or something that is not
  a list. Within one run each model is a function of the path or buffer it is given.
  The rendering of a time with two decimals (\<^verbatim>\<open>:.2f\<close>) is a parameter too.
\<close>

record vad_segment =
  seg_start :: int
  seg_end :: int

datatype asr_result = AsrNotList | AsrList "(string \<times> string) list list"

record ('a, 's) models =
  emotion_pipeline :: "string \<Rightarrow> 's emotion_result list"
  asr_pipeline :: "string \<Rightarrow> asr_result"
  read_audio :: "string \<Rightarrow> 'a list"
  get_speech_ts :: "'a list \<Rightarrow> vad_segment list"
  format_2f :: "rat \<Rightarrow> string"

subsection \<open>The results folder\<close>

text \<open>
  The folder holds regular files only: segment audio and text. \<^verbatim>\<open>os.listdir\<close> gives
  the names, \<^verbatim>\<open>os.remove\<close> deletes one name, a write replaces or adds one.
\<close>

datatype 'a content = WavFile "'a list" | TextFile string

type_synonym 'a folder = "(string \<times> 'a content) list"

definition listdir :: "'a folder \<Rightarrow> string list" where
  "listdir fs = map fst fs"

definition remove :: "string \<Rightarrow> 'a folder \<Rightarrow> 'a folder" where
  "remove name fs = AList.delete name fs"

definition save_audio :: "string \<Rightarrow> 'a list \<Rightarrow> 'a folder \<Rightarrow> 'a folder" where
  "save_audio name samples fs = AList.update name (WavFile samples) fs"

subsection \<open>One segment (lines 69 to 104)\<close>

definition segment_name :: "('a, 's) models \<Rightarrow> string \<Rightarrow> nat \<Rightarrow> vad_segment \<Rightarrow> string" where
  "segment_name m audio_file i segment =
     (let start_time = float_div (seg_start segment) 16000;
          end_time = float_div (seg_end segment) 16000
      in fst (splitext (basename audio_file)) @ ''_segment_'' @ str_nat (i + 1) @ ''_''
           @ format_2f m start_time @ ''-'' @ format_2f m end_time @ ''.wav'')"

definition segment_path :: "('a, 's) models \<Rightarrow> string \<Rightarrow> nat \<Rightarrow> vad_segment \<Rightarrow> string" where
  "segment_path m audio_file i segment =
     path_join RESULTS_FOLDER (segment_name m audio_file i segment)"

text \<open>
  Lines 76 to 104 for the artifact at one path: the record to append, no record, or
  the error raised.
\<close>

definition annotate_segment ::
  "('a, 's::linorder) models \<Rightarrow> string \<Rightarrow> py_error + annotated_segment option" where
  "annotate_segment m path =
     (case asr_pipeline m path of
        AsrList (result # _) \<Rightarrow>
          (let text_content = (case map_of result ''text'' of Some t \<Rightarrow> t | None \<Rightarrow> [])
           in case best_emotion (emotion_pipeline m path) of
                Inl err \<Rightarrow> Inl err
              | Inr best \<Rightarrow> Inr (tag_record text_content best))
      | _ \<Rightarrow> Inr None)"

text \<open>
  The record that one detected range contributes, if any; and, in the words of the
  specification, a recogniser result with no usable transcript: not a list, an empty
  list, or a first entry whose text is missing or empty.
\<close>

definition segment_result ::
  "('a, 's::linorder) models \<Rightarrow> string \<Rightarrow> nat \<times> vad_segment \<Rightarrow> annotated_segment option" where
  "segment_result m audio_file = (\<lambda>(i, segment).
     case annotate_segment m (segment_path m audio_file i segment) of
       Inl err \<Rightarrow> None
     | Inr r \<Rightarrow> r)"

definition no_transcript :: "asr_result \<Rightarrow> bool" where
  "no_transcript asr_result =
     (case asr_result of
        AsrNotList \<Rightarrow> True
      | AsrList [] \<Rightarrow> True
      | AsrList (result # _) \<Rightarrow>
          (case map_of result ''text'' of None \<Rightarrow> True | Some t \<Rightarrow> t = []))"

fun segments_loop ::
  "('a, 's::linorder) models \<Rightarrow> string \<Rightarrow> 'a list \<Rightarrow> (nat \<times> vad_segment) list \<Rightarrow>
     result_dict list \<Rightarrow> 'a folder \<Rightarrow> (py_error + result_dict list) \<times> 'a folder" where
  "segments_loop m audio_file audio [] results fs = (Inr results, fs)"
| "segments_loop m audio_file audio ((i, segment) # rest) results fs =
     (let start_time = float_div (seg_start segment) 16000;
          end_time = float_div (seg_end segment) 16000;
          segment_audio = extract_segment audio start_time end_time 16000;
          fs' = save_audio (segment_name m audio_file i segment) segment_audio fs
      in case annotate_segment m (segment_path m audio_file i segment) of
           Inl err \<Rightarrow> (Inl err, fs')
         | Inr None \<Rightarrow> segments_loop m audio_file audio rest results fs'
         | Inr (Some result_dict) \<Rightarrow>
             segments_loop m audio_file audio rest
               (results @ [AnnotatedSegment result_dict]) fs')"

subsection \<open>Writing the result (lines 106 to 108)\<close>

text \<open>
  \<^verbatim>\<open>json.dump(results, f, ensure_ascii=False, indent=4)\<close> for a list of dictionaries
  from strings to strings. Inside a string the quote, the backslash and the control
  characters are escaped; every other character is written as it is.
\<close>

definition json_escape :: "char \<Rightarrow> string" where
  "json_escape c =
     (if c = CHR 0x22 then [CHR 0x5C, CHR 0x22]
      else if c = CHR 0x5C then [CHR 0x5C, CHR 0x5C]
      else if c = CHR 0x08 then [CHR 0x5C, CHR ''b'']
      else if c = CHR 0x0C then [CHR 0x5C, CHR ''f'']
      else if c = CHR 0x0A then [CHR 0x5C, CHR ''n'']
      else if c = CHR 0x0D then [CHR 0x5C, CHR ''r'']
      else if c = CHR 0x09 then [CHR 0x5C, CHR ''t'']
      else if (of_char c :: nat) < 32
        then [CHR 0x5C, CHR ''u'', CHR ''0'', CHR ''0'',
              ''0123456789abcdef'' ! (of_char c div 16), ''0123456789abcdef'' ! (of_char c mod 16)]
      else [c])"

definition json_string :: "string \<Rightarrow> string" where
  "json_string s = [CHR 0x22] @ concat (map json_escape s) @ [CHR 0x22]"

fun dict_items :: "result_dict \<Rightarrow> (string \<times> string) list" where
  "dict_items (OverallEmotion best_overall_emotion) =
     [(''Overall Emotion'', best_overall_emotion)]"
| "dict_items (AnnotatedSegment r) =
     [(''Language'', Language r), (''Emotion'', Emotion r),
      (''Audio Type'', Audio_Type r), (''Text'', Text r)]"

definition json_dict :: "(string \<times> string) list \<Rightarrow> string" where
  "json_dict items =
     (if items = [] then ''{}''
      else ''{'' @ [CHR 0x0A] @ replicate 8 (CHR '' '')
        @ join ('','' @ [CHR 0x0A] @ replicate 8 (CHR '' ''))
            (map (\<lambda>(k, v). json_string k @ '': '' @ json_string v) items)
        @ [CHR 0x0A] @ replicate 4 (CHR '' '') @ ''}'')"

definition json_dumps :: "result_dict list \<Rightarrow> string" where
  "json_dumps results =
     (if results = [] then ''[]''
      else ''['' @ [CHR 0x0A] @ replicate 4 (CHR '' '')
        @ join ('','' @ [CHR 0x0A] @ replicate 4 (CHR '' ''))
            (map (\<lambda>d. json_dict (dict_items d)) results)
        @ [CHR 0x0A] @ '']'')"

text \<open>
  The file is opened for writing, which empties it, and the text is then written
  piece by piece. What the operating system does is an input of the model: nothing
  goes wrong, the open fails, or the write fails once \<open>n\<close> characters are in the file.
\<close>

datatype io_fault = NoFault | OpenFails | WriteFails nat

definition dump_results ::
  "io_fault \<Rightarrow> result_dict list \<Rightarrow> 'a folder \<Rightarrow> (py_error + unit) \<times> 'a folder" where
  "dump_results fault results fs =
     (case fault of
        NoFault \<Rightarrow>
          (Inr (), AList.update ''output_results.json'' (TextFile (json_dumps results)) fs)
      | OpenFails \<Rightarrow> (Inl OSError, fs)
      | WriteFails n \<Rightarrow>
          (Inl OSError,
           AList.update ''output_results.json'' (TextFile (take n (json_dumps results))) fs))"

subsection \<open>Cleanup (lines 111 to 113)\<close>

definition cleanup :: "'a folder \<Rightarrow> 'a folder" where
  "cleanup fs =
     fold (\<lambda>file fs'. if endswith file ''.wav'' \<and> file \<noteq> ''output_results.json''
                       then remove file fs' else fs')
       (listdir fs) fs"

subsection \<open>The run (lines 51 to 113)\<close>

text \<open>Lines 52 to 104: the list \<^verbatim>\<open>results\<close> as it stands before it is written.\<close>

definition build_results ::
  "('a, 's::linorder) models \<Rightarrow> string \<Rightarrow> 'a folder \<Rightarrow>
     (py_error + result_dict list) \<times> 'a folder" where
  "build_results m audio_file fs =
     (case best_emotion (emotion_pipeline m audio_file) of
        Inl err \<Rightarrow> (Inl err, fs)
      | Inr best_overall_emotion \<Rightarrow>
          (let results = [OverallEmotion best_overall_emotion];
               audio = read_audio m audio_file;
               vad_segments = get_speech_ts m audio
           in segments_loop m audio_file audio (List.enumerate 0 vad_segments) results fs))"

text \<open>
  The function has no \<^verbatim>\<open>return\<close> statement: a run that raises nothing hands back
  \<^verbatim>\<open>None\<close>. An error leaves the folder as it was when the error was raised.
\<close>

definition process_audio_file ::
  "('a, 's::linorder) models \<Rightarrow> io_fault \<Rightarrow> string \<Rightarrow> 'a folder \<Rightarrow>
     (py_error + py_value) \<times> 'a folder" where
  "process_audio_file m fault audio_file fs =
     (case build_results m audio_file fs of
        (Inl err, fs1) \<Rightarrow> (Inl err, fs1)
      | (Inr results, fs1) \<Rightarrow>
          (case dump_results fault results fs1 of
             (Inl err, fs2) \<Rightarrow> (Inl err, fs2)
           | (Inr _, fs2) \<Rightarrow> (Inr PyNone, cleanup fs2)))"

subsection \<open>A small run\<close>

text \<open>
  Two detected ranges over eight samples; the recogniser has nothing for the first
  artifact and a tagged transcript for the second; the classifier scores a tie.
\<close>

definition demo_models :: "(int, int) models" where
  "demo_models =
     \<lparr>emotion_pipeline = (\<lambda>p. [\<lparr>labels = [''angry'', ''happy'', ''sad''], scores = [1, 3, 3]\<rparr>]),
      asr_pipeline = (\<lambda>p. if p = ''./results/talk_segment_1_0.00-0.00.wav'' then AsrList []
                           else AsrList [[(''text'', ''<|EN|><|NEUTRAL|><|speech|><|withitn|> hi '')]]),
      read_audio = (\<lambda>p. [10, 11, 12, 13, 14, 15, 16, 17]),
      get_speech_ts = (\<lambda>a. [\<lparr>seg_start = 1, seg_end = 3\<rparr>, \<lparr>seg_start = 5, seg_end = 7\<rparr>]),
      format_2f = (\<lambda>t. ''0.00'')\<rparr>"

definition silent_models :: "(int, int) models" where
  "silent_models = demo_models\<lparr>get_speech_ts := (\<lambda>a. [])\<rparr>"

section \<open>Properties\<close>

subsection \<open>Splitting and the markers\<close>

lemma split_from_nonempty: "split_from sep cur s \<noteq> []"
  by (induction sep cur s rule: split_from.induct) auto

lemma contains_iff: "contains sep s \<longleftrightarrow> (\<exists>pre post. s = pre @ sep @ post)"
proof (induction s)
  case Nil
  then show ?case by simp
next
  case (Cons c cs)
  show ?case
  proof
    assume "contains sep (c # cs)"
    then consider "prefix sep (c # cs)" | "contains sep cs" by auto
    then show "\<exists>pre post. c # cs = pre @ sep @ post"
    proof cases
      case 1
      then obtain post where "c # cs = sep @ post" by (auto simp: prefix_def)
      then have "c # cs = [] @ sep @ post" by simp
      then show ?thesis by blast
    next
      case 2
      with Cons obtain pre post where "cs = pre @ sep @ post" by blast
      then have "c # cs = (c # pre) @ sep @ post" by simp
      then show ?thesis by blast
    qed
  next
    assume "\<exists>pre post. c # cs = pre @ sep @ post"
    then obtain pre post where e: "c # cs = pre @ sep @ post" by blast
    show "contains sep (c # cs)"
    proof (cases pre)
      case Nil
      with e have "prefix sep (c # cs)" by (simp add: prefix_def)
      then show ?thesis by simp
    next
      case (Cons d pre')
      with e have "cs = pre' @ sep @ post" by simp
      with Cons.IH show ?thesis by auto
    qed
  qed
qed

lemma join_split_from: "join sep (split_from sep cur s) = cur @ s"
  apply (induction sep cur s rule: split_from.induct)
   apply simp
  subgoal for sep cur c cs
    apply (cases "split_from sep [] (drop (length sep) (c # cs))")
    using split_from_nonempty apply blast
    apply (auto simp: prefix_def)
    done
  done

lemma hd_split_from:
  assumes "sep \<noteq> []"
  shows "(contains sep s \<longrightarrow> (\<exists>a. before_first sep s a \<and> hd (split_from sep cur s) = cur @ a))
       \<and> (\<not> contains sep s \<longrightarrow> hd (split_from sep cur s) = cur @ s)"
  using assms
proof (induction sep cur s rule: split_from.induct)
  case (1 sep cur)
  then show ?case by simp
next
  case (2 sep cur c cs)
  show ?case
  proof (cases "prefix sep (c # cs)")
    case True
    then obtain rest where "c # cs = [] @ sep @ rest" by (auto simp: prefix_def)
    then have bf0: "before_first sep (c # cs) []" unfolding before_first_def by auto
    from True 2(3) have "hd (split_from sep cur (c # cs)) = cur @ []" by simp
    with bf0 True show ?thesis by (metis contains.simps(2))
  next
    case False
    have np: "\<And>a' rest'. c # cs = a' @ sep @ rest' \<Longrightarrow> \<exists>a''. a' = c # a'' \<and> cs = a'' @ sep @ rest'"
    proof -
      fix a' rest' assume e: "c # cs = a' @ sep @ rest'"
      show "\<exists>a''. a' = c # a'' \<and> cs = a'' @ sep @ rest'"
      proof (cases a')
        case Nil
        with e have "prefix sep (c # cs)" by (simp add: prefix_def)
        with False show ?thesis by simp
      next
        case (Cons d a'')
        with e show ?thesis by simp
      qed
    qed
    from False 2(2,3) have IH: "(contains sep cs \<longrightarrow> (\<exists>a. before_first sep cs a \<and> hd (split_from sep (cur @ [c]) cs) = (cur @ [c]) @ a))
       \<and> (\<not> contains sep cs \<longrightarrow> hd (split_from sep (cur @ [c]) cs) = (cur @ [c]) @ cs)" by simp
    have bf: "before_first sep (c # cs) (c # a)" if "before_first sep cs a" for a
    proof -
      from that obtain rest where r: "cs = a @ sep @ rest"
        and m: "\<And>a' rest'. cs = a' @ sep @ rest' \<Longrightarrow> length a \<le> length a'"
        unfolding before_first_def by blast
      have "length (c # a) \<le> length a'" if "c # cs = a' @ sep @ rest'" for a' rest'
      proof -
        from np[OF that] obtain a'' where "a' = c # a''" "cs = a'' @ sep @ rest'" by blast
        with m show ?thesis by simp
      qed
      moreover from r have "c # cs = (c # a) @ sep @ rest" by simp
      ultimately show ?thesis unfolding before_first_def by blast
    qed
    have hdeq: "hd (split_from sep cur (c # cs)) = hd (split_from sep (cur @ [c]) cs)"
      using False by simp
    have ceq: "contains sep (c # cs) = contains sep cs" using False by simp
    show ?thesis
    proof (cases "contains sep cs")
      case True
      with IH obtain a where "before_first sep cs a" "hd (split_from sep (cur @ [c]) cs) = (cur @ [c]) @ a" by blast
      with bf[of a] hdeq have "before_first sep (c # cs) (c # a) \<and> hd (split_from sep cur (c # cs)) = cur @ (c # a)" by simp
      with True ceq show ?thesis by blast
    next
      case False
      with IH hdeq ceq show ?thesis by simp
    qed
  qed
qed

lemma decomp_after_marker:
  assumes ab: "a \<noteq> b" and e: "a # b # s' = pre' @ [a, b] @ t'"
  shows "(pre' = [] \<and> t' = s') \<or> (\<exists>p. pre' = a # b # p \<and> s' = p @ [a, b] @ t')"
proof (cases pre')
  case Nil
  with e show ?thesis by simp
next
  case (Cons x p1)
  note c1 = Cons
  show ?thesis
  proof (cases p1)
    case Nil
    with c1 e ab show ?thesis by simp
  next
    case (Cons y p)
    with c1 e show ?thesis by simp
  qed
qed

lemma last_split_from:
  assumes "sep = [a, b]" and "a \<noteq> b"
  shows "(contains sep s \<longrightarrow> after_last sep s (last (split_from sep cur s)))
       \<and> (\<not> contains sep s \<longrightarrow> last (split_from sep cur s) = cur @ s)"
  using assms
proof (induction sep cur s rule: split_from.induct)
  case (1 sep cur)
  then show ?case by simp
next
  case (2 sep cur c cs)
  note sep = \<open>sep = [a, b]\<close> and ab = \<open>a \<noteq> b\<close>
  show ?case
  proof (cases "prefix sep (c # cs)")
    case True
    then obtain s' where s': "c # cs = a # b # s'" using sep by (auto simp: prefix_def)
    then have dr: "drop (length sep) (c # cs) = s'" using sep by simp
    define t where "t = last (split_from sep [] s')"
    have lt: "last (split_from sep cur (c # cs)) = t"
      using True sep dr split_from_nonempty[of sep "[]" s'] by (simp add: t_def)
    from 2(1)[OF _ sep ab] True sep dr
    have IH: "(contains sep s' \<longrightarrow> after_last sep s' t) \<and> (\<not> contains sep s' \<longrightarrow> t = s')"
      by (simp add: t_def)
    have c: "contains sep (c # cs)" using True by simp
    have "after_last sep (c # cs) t"
    proof (cases "contains sep s'")
      case True
      with IH have "after_last sep s' t" by simp
      then obtain pre where r: "s' = pre @ sep @ t"
        and m: "\<And>pre' t'. s' = pre' @ sep @ t' \<Longrightarrow> length t \<le> length t'"
        unfolding after_last_def by blast
      have "length t \<le> length t'" if d: "c # cs = pre' @ sep @ t'" for pre' t'
      proof -
        from d s' sep have "a # b # s' = pre' @ [a, b] @ t'" by simp
        from decomp_after_marker[OF ab this] show ?thesis
        proof
          assume "pre' = [] \<and> t' = s'"
          with r show ?thesis by simp
        next
          assume "\<exists>p. pre' = a # b # p \<and> s' = p @ [a, b] @ t'"
          with m sep show ?thesis by blast
        qed
      qed
      moreover from r s' sep have "c # cs = (a # b # pre) @ sep @ t" by simp
      ultimately show ?thesis unfolding after_last_def by blast
    next
      case False
      with IH have ts: "t = s'" by simp
      have "length t \<le> length t'" if d: "c # cs = pre' @ sep @ t'" for pre' t'
      proof -
        from d s' sep have "a # b # s' = pre' @ [a, b] @ t'" by simp
        from decomp_after_marker[OF ab this] show ?thesis
        proof
          assume "pre' = [] \<and> t' = s'"
          with ts show ?thesis by simp
        next
          assume "\<exists>p. pre' = a # b # p \<and> s' = p @ [a, b] @ t'"
          with sep have "contains sep s'" unfolding contains_iff by blast
          with False show ?thesis by simp
        qed
      qed
      moreover from ts s' sep have "c # cs = [] @ sep @ t" by simp
      ultimately show ?thesis unfolding after_last_def by blast
    qed
    with c lt show ?thesis by simp
  next
    case False
    have np: "\<exists>p. pre' = c # p \<and> cs = p @ sep @ t'" if e: "c # cs = pre' @ sep @ t'" for pre' t'
    proof (cases pre')
      case Nil
      with e have "prefix sep (c # cs)" by (simp add: prefix_def)
      with False show ?thesis by simp
    next
      case (Cons d p)
      with e show ?thesis by simp
    qed
    define t where "t = last (split_from sep (cur @ [c]) cs)"
    from False 2(2)[OF _ sep ab]
    have IH: "(contains sep cs \<longrightarrow> after_last sep cs t) \<and> (\<not> contains sep cs \<longrightarrow> t = (cur @ [c]) @ cs)"
      by (simp add: t_def)
    have lt: "last (split_from sep cur (c # cs)) = t" using False by (simp add: t_def)
    have ceq: "contains sep (c # cs) = contains sep cs" using False by simp
    show ?thesis
    proof (cases "contains sep cs")
      case True
      with IH have "after_last sep cs t" by simp
      then obtain pre where r: "cs = pre @ sep @ t"
        and m: "\<And>pre' t'. cs = pre' @ sep @ t' \<Longrightarrow> length t \<le> length t'"
        unfolding after_last_def by blast
      have "length t \<le> length t'" if d: "c # cs = pre' @ sep @ t'" for pre' t'
        using np[OF d] m by blast
      moreover from r have "c # cs = (c # pre) @ sep @ t" by simp
      ultimately have "after_last sep (c # cs) t" unfolding after_last_def by blast
      with True ceq lt show ?thesis by simp
    next
      case False
      with IH ceq lt show ?thesis by simp
    qed
  qed
qed

lemma contains_drop: "contains sep p \<longleftrightarrow> (\<exists>k\<le>length p. prefix sep (drop k p))"
proof
  assume "contains sep p"
  then obtain pre post where "p = pre @ sep @ post" unfolding contains_iff by blast
  then have "length pre \<le> length p \<and> prefix sep (drop (length pre) p)" by simp
  then show "\<exists>k\<le>length p. prefix sep (drop k p)" by blast
next
  assume "\<exists>k\<le>length p. prefix sep (drop k p)"
  then obtain k post where "drop k p = sep @ post" by (auto simp: prefix_def)
  then have "p = take k p @ sep @ post" by (metis append_take_drop_id)
  then show "contains sep p" unfolding contains_iff by blast
qed

lemma split_from_pieces:
  assumes "sep \<noteq> []" and "\<forall>k<length cur. \<not> prefix sep (drop k (cur @ s))"
  shows "\<forall>p \<in> set (split_from sep cur s). \<not> contains sep p"
  using assms
proof (induction sep cur s rule: split_from.induct)
  case (1 sep cur)
  have "\<not> contains sep cur"
  proof
    assume "contains sep cur"
    then obtain k where k: "k \<le> length cur" "prefix sep (drop k cur)" unfolding contains_drop by blast
    with \<open>sep \<noteq> []\<close> have "k < length cur" by (cases "k = length cur") auto
    with 1 k show False by simp
  qed
  then show ?case by simp
next
  case (2 sep cur c cs)
  note ne = \<open>sep \<noteq> []\<close>
  have nc: "\<not> contains sep cur"
  proof
    assume "contains sep cur"
    then obtain k where k: "k \<le> length cur" "prefix sep (drop k cur)" unfolding contains_drop by blast
    with ne have kl: "k < length cur" by (cases "k = length cur") auto
    from k have "prefix sep (drop k cur @ (c # cs))" by (simp add: prefix_prefix)
    with kl have "prefix sep (drop k (cur @ c # cs))" by simp
    with 2(4) kl show False by blast
  qed
  show ?case
  proof (cases "prefix sep (c # cs)")
    case True
    with 2(1)[OF _ ne] ne have "\<forall>p\<in>set (split_from sep [] (drop (length sep) (c # cs))). \<not> contains sep p"
      by simp
    with True ne nc show ?thesis by simp
  next
    case False
    have "\<forall>k<length (cur @ [c]). \<not> prefix sep (drop k ((cur @ [c]) @ cs))"
    proof (intro allI impI)
      fix k assume "k < length (cur @ [c])"
      then consider "k < length cur" | "k = length cur" by fastforce
      then show "\<not> prefix sep (drop k ((cur @ [c]) @ cs))"
      proof cases
        case 1
        with 2(4) show ?thesis by simp
      next
        case 2
        with False show ?thesis by simp
      qed
    qed
    with 2(2)[OF _ ne] False have "\<forall>p\<in>set (split_from sep (cur @ [c]) cs). \<not> contains sep p" by simp
    with False show ?thesis by simp
  qed
qed

lemma split_from_substring:
  "p \<in> set (split_from sep cur s) \<Longrightarrow> \<exists>pre post. cur @ s = pre @ p @ post"
proof (induction sep cur s rule: split_from.induct)
  case (1 sep cur)
  then have "cur @ [] = [] @ p @ []" by simp
  then show ?case by blast
next
  case (2 sep cur c cs)
  show ?case
  proof (cases "sep \<noteq> [] \<and> prefix sep (c # cs)")
    case True
    with 2(3) consider "p = cur" | "p \<in> set (split_from sep [] (drop (length sep) (c # cs)))" by auto
    then show ?thesis
    proof cases
      case 1
      then have "cur @ c # cs = [] @ p @ (c # cs)" by simp
      then show ?thesis by blast
    next
      case 2
      with "2.IH"(1)[OF True] obtain pre post where "drop (length sep) (c # cs) = pre @ p @ post" by auto
      then have "cur @ c # cs = (cur @ take (length sep) (c # cs) @ pre) @ p @ post"
        by (metis append.assoc append_take_drop_id)
      then show ?thesis by blast
    qed
  next
    case False
    with 2(3) have "p \<in> set (split_from sep (cur @ [c]) cs)" by auto
    with "2.IH"(2)[OF False] show ?thesis by simp
  qed
qed

lemma contains_piece:
  assumes "p \<in> set (split sep s)" and "contains x p"
  shows "contains x s"
proof -
  from assms(1) obtain pre post where s: "s = pre @ p @ post"
    unfolding split_def using split_from_substring[of p sep "[]" s] by auto
  from assms(2) obtain u v where "p = u @ x @ v" unfolding contains_iff by blast
  with s have "s = (pre @ u) @ x @ (v @ post)" by simp
  then show ?thesis unfolding contains_iff by blast
qed

text \<open>
  Claim C1. The raw annotation is cut at every opening marker; each part that contains
  the closing marker gives one field, the stripped text before its first closing
  marker. With fewer than four fields there is no record; with four or more the record
  takes its language from field 0, its audio type from field 2 and its text from
  what follows the last closing marker of the whole annotation, stripped. The two
  annotations of the specification give no record and the record EN, speech, hello.
\<close>

theorem tag_parser_record:
  "join ''<|'' (split ''<|'' s) = s
   \<and> (\<forall>part \<in> set (split ''<|'' s). \<not> contains ''<|'' part)
   \<and> (let parts = filter (contains ''|>'') (split ''<|'' s) in
        length (extracted_info s) = length parts
        \<and> (\<forall>i<length parts. \<exists>a. before_first ''|>'' (parts ! i) a \<and> extracted_info s ! i = strip a))
   \<and> (length (extracted_info s) < 4 \<longrightarrow> tag_record s e = None)
   \<and> (4 \<le> length (extracted_info s) \<longrightarrow>
        (\<exists>t. after_last ''|>'' s t \<and>
          tag_record s e = Some \<lparr>Language = extracted_info s ! 0, Emotion = e,
                                   Audio_Type = extracted_info s ! 2, Text = strip t\<rparr>))
   \<and> (asr_pipeline m path = AsrList (result # others) \<and> map_of result ''text'' = Some s
        \<and> best_emotion (emotion_pipeline m path) = Inr e \<longrightarrow>
        annotate_segment m path = Inr (tag_record s e))
   \<and> tag_record ''<|EN|><|happy|>'' e = None
   \<and> tag_record ''<|EN|><|happy|><|speech|><|withitn|>hello'' e
       = Some \<lparr>Language = ''EN'', Emotion = e, Audio_Type = ''speech'', Text = ''hello''\<rparr>"
proof -
  have j: "join ''<|'' (split ''<|'' s) = s"
    by (simp add: split_def join_split_from)
  have p: "\<forall>part \<in> set (split ''<|'' s). \<not> contains ''<|'' part"
    unfolding split_def by (rule split_from_pieces) simp_all
  have f: "let parts = filter (contains ''|>'') (split ''<|'' s) in
        length (extracted_info s) = length parts
        \<and> (\<forall>i<length parts. \<exists>a. before_first ''|>'' (parts ! i) a \<and> extracted_info s ! i = strip a)"
  proof -
    define parts where "parts = filter (contains ''|>'') (split ''<|'' s)"
    have ei: "extracted_info s = map (\<lambda>part. strip (hd (split ''|>'' part))) parts"
      by (simp add: extracted_info_def parts_def)
    have "\<exists>a. before_first ''|>'' (parts ! i) a \<and> extracted_info s ! i = strip a" if "i < length parts" for i
    proof -
      from that have "parts ! i \<in> set parts" by simp
      then have "contains ''|>'' (parts ! i)" by (simp add: parts_def)
      with hd_split_from[of "''|>''" "parts ! i" "[]"]
      obtain a where "before_first ''|>'' (parts ! i) a" "hd (split ''|>'' (parts ! i)) = a"
        by (auto simp: split_def)
      with that ei show ?thesis by auto
    qed
    with ei show ?thesis unfolding parts_def[symmetric] Let_def by simp
  qed
  have n: "length (extracted_info s) < 4 \<longrightarrow> tag_record s e = None"
    by (simp add: tag_record_def)
  have r: "4 \<le> length (extracted_info s) \<longrightarrow>
        (\<exists>t. after_last ''|>'' s t \<and>
          tag_record s e = Some \<lparr>Language = extracted_info s ! 0, Emotion = e,
                                   Audio_Type = extracted_info s ! 2, Text = strip t\<rparr>)"
  proof
    assume 4: "4 \<le> length (extracted_info s)"
    define parts where "parts = filter (contains ''|>'') (split ''<|'' s)"
    from 4 have "parts \<noteq> []" by (auto simp: extracted_info_def parts_def)
    then have "hd parts \<in> set parts" by simp
    then have "hd parts \<in> set (split ''<|'' s)" "contains ''|>'' (hd parts)"
      by (simp_all add: parts_def)
    then have "contains ''|>'' s" by (rule contains_piece)
    with last_split_from[of "''|>''" "CHR ''|''" "CHR ''>''" s "[]"]
    have "after_last ''|>'' s (last (split ''|>'' s))" by (simp add: split_def)
    moreover from 4 have "tag_record s e = Some \<lparr>Language = extracted_info s ! 0, Emotion = e,
          Audio_Type = extracted_info s ! 2, Text = strip (last (split ''|>'' s))\<rparr>"
      by (simp add: tag_record_def Let_def)
    ultimately show "\<exists>t. after_last ''|>'' s t \<and>
          tag_record s e = Some \<lparr>Language = extracted_info s ! 0, Emotion = e,
                                   Audio_Type = extracted_info s ! 2, Text = strip t\<rparr>"
      by blast
  qed
  have e1: "tag_record ''<|EN|><|happy|>'' e = None"
    by (simp add: tag_record_def extracted_info_def split_def strip_def isspace_def)
  have e2: "tag_record ''<|EN|><|happy|><|speech|><|withitn|>hello'' e
       = Some \<lparr>Language = ''EN'', Emotion = e, Audio_Type = ''speech'', Text = ''hello''\<rparr>"
    by (simp add: tag_record_def extracted_info_def split_def strip_def isspace_def)
  have a: "asr_pipeline m path = AsrList (result # others) \<and> map_of result ''text'' = Some s
        \<and> best_emotion (emotion_pipeline m path) = Inr e \<longrightarrow>
        annotate_segment m path = Inr (tag_record s e)"
    by (simp add: annotate_segment_def)
  from j p f n r a e1 e2 show ?thesis by blast
qed

theorem tag_parser_record_witness:
  "length (extracted_info ''<|EN|><|happy|>'') < 4
   \<and> tag_record ''<|EN|><|happy|>'' ''sad'' = None
   \<and> 4 \<le> length (extracted_info ''<|EN|><|happy|><|speech|><|withitn|>hello'')
   \<and> (\<exists>t. after_last ''|>'' ''<|EN|><|happy|><|speech|><|withitn|>hello'' t \<and>
        tag_record ''<|EN|><|happy|><|speech|><|withitn|>hello'' ''sad''
          = Some \<lparr>Language = ''EN'', Emotion = ''sad'', Audio_Type = ''speech'',
                     Text = strip t\<rparr>)"
proof -
  have h: "4 \<le> length (extracted_info ''<|EN|><|happy|><|speech|><|withitn|>hello'')"
    by (simp add: extracted_info_def split_def)
  have f: "extracted_info ''<|EN|><|happy|><|speech|><|withitn|>hello''
             = [''EN'', ''happy'', ''speech'', ''withitn'']"
    by (simp add: extracted_info_def split_def strip_def isspace_def)
  have l: "length (extracted_info ''<|EN|><|happy|>'') < 4"
    by (simp add: extracted_info_def split_def)
  from tag_parser_record [of "''<|EN|><|happy|>''" "''sad''"] l
  have n: "tag_record ''<|EN|><|happy|>'' ''sad'' = None"
    by blast
  from tag_parser_record [of "''<|EN|><|happy|><|speech|><|withitn|>hello''" "''sad''"] h
  have "\<exists>t. after_last ''|>'' ''<|EN|><|happy|><|speech|><|withitn|>hello'' t \<and>
        tag_record ''<|EN|><|happy|><|speech|><|withitn|>hello'' ''sad''
          = Some \<lparr>Language = extracted_info ''<|EN|><|happy|><|speech|><|withitn|>hello'' ! 0,
               Emotion = ''sad'',
               Audio_Type = extracted_info ''<|EN|><|happy|><|speech|><|withitn|>hello'' ! 2,
               Text = strip t\<rparr>"
    by blast
  with h l n show ?thesis unfolding f by simp
qed

subsection \<open>Slices and truncation\<close>

lemma py_slice_in_range:
  assumes "0 \<le> a" "a \<le> b" "b \<le> int (length xs)"
  shows "py_slice xs a b = take (nat (b - a)) (drop (nat a) xs)"
  using assms by (simp add: py_slice_def Let_def min_def)

lemma py_slice_contiguous:
  "\<exists>lo hi. lo \<le> hi \<and> hi \<le> length xs \<and> py_slice xs a b = take (hi - lo) (drop lo xs)"
proof -
  define n where "n = int (length xs)"
  define lo where "lo = (if a < 0 then max (a + n) 0 else min a n)"
  define hi where "hi = (if b < 0 then max (b + n) 0 else min b n)"
  have r: "0 \<le> lo" "lo \<le> n" "0 \<le> hi" "hi \<le> n" by (auto simp: lo_def hi_def n_def)
  have e: "py_slice xs a b = take (nat (hi - lo)) (drop (nat lo) xs)"
    by (simp add: py_slice_def Let_def lo_def hi_def n_def)
  show ?thesis
  proof (cases "lo \<le> hi")
    case True
    with r have "nat lo \<le> nat hi \<and> nat hi \<le> length xs \<and> nat (hi - lo) = nat hi - nat lo"
      by (auto simp: n_def nat_diff_distrib)
    with e show ?thesis by metis
  next
    case False
    with e have "py_slice xs a b = take (0 - 0) (drop 0 xs)" by simp
    then show ?thesis by blast
  qed
qed

lemma py_slice_nth:
  assumes "0 \<le> a" "a \<le> b" "b \<le> int (length xs)"
  shows "length (py_slice xs a b) = nat (b - a)
       \<and> (\<forall>k<nat (b - a). py_slice xs a b ! k = xs ! (nat a + k))"
  using assms by (auto simp: py_slice_in_range)

lemma py_slice_end_beyond:
  assumes "0 \<le> a" "a \<le> int (length xs)" "int (length xs) \<le> b"
  shows "py_slice xs a b = drop (nat a) xs"
  using assms by (simp add: py_slice_def Let_def min_def)

lemma py_slice_negative_start:
  assumes "- int (length xs) \<le> a" "a < 0"
  shows "py_slice xs a b = py_slice xs (a + int (length xs)) b"
proof -
  have "(if a < 0 then max (a + int (length xs)) 0 else min a (int (length xs)))
      = (if a + int (length xs) < 0 then max (a + int (length xs) + int (length xs)) 0
         else min (a + int (length xs)) (int (length xs)))"
    using assms by simp
  then show ?thesis unfolding py_slice_def Let_def by simp
qed

lemma py_slice_far_negative_start:
  assumes "a < - int (length xs)"
  shows "py_slice xs a b = py_slice xs 0 b"
  using assms by (simp add: py_slice_def Let_def min_def max_def)

lemma py_int_trunc:
  "(0 \<le> x \<longrightarrow> of_int (py_int x) \<le> x \<and> x < of_int (py_int x) + 1)
   \<and> (x < 0 \<longrightarrow> x \<le> of_int (py_int x) \<and> of_int (py_int x) - 1 < x)"
  by (auto simp: py_int_def) linarith+


subsection \<open>The greatest score and the loop over the segments\<close>

lemma fold_max_ge: "m \<le> fold (\<lambda>y m. if m < y then y else m) xs (m :: 's :: linorder)"
  by (induction xs arbitrary: m) (auto intro: order_trans less_imp_le)

lemma fold_max_upper:
  "\<forall>y \<in> set xs. y \<le> fold (\<lambda>y m. if m < y then y else m) xs (m :: 's :: linorder)"
proof (induction xs arbitrary: m)
  case Nil
  then show ?case by simp
next
  case (Cons x xs)
  have "x \<le> fold (\<lambda>y m. if m < y then y else m) xs (if m < x then x else m)"
    using fold_max_ge[of "if m < x then x else m" xs] by (auto split: if_splits)
  with Cons show ?case by simp
qed

lemma fold_max_mem:
  "fold (\<lambda>y m. if m < y then y else m) xs (m :: 's :: linorder) \<in> insert m (set xs)"
  by (induction xs arbitrary: m) auto

lemma py_max_Inr:
  assumes "py_max xs = Inr (v :: 's :: linorder)"
  shows "v \<in> set xs \<and> (\<forall>y \<in> set xs. y \<le> v)"
proof (cases xs)
  case Nil
  with assms show ?thesis by simp
next
  case (Cons x rest)
  with assms have v: "v = fold (\<lambda>y m. if m < y then y else m) rest x" by simp
  from fold_max_mem[of rest x] fold_max_ge[of x rest] fold_max_upper[of rest x]
  show ?thesis unfolding v Cons by auto
qed

lemma py_max_total: "xs \<noteq> [] \<Longrightarrow> \<exists>v. py_max xs = Inr v"
  by (cases xs) auto

lemma py_index_Inr:
  "py_index xs v = Inr i \<Longrightarrow> i < length xs \<and> xs ! i = v \<and> (\<forall>j<i. xs ! j \<noteq> v)"
proof (induction xs arbitrary: i)
  case Nil
  then show ?case by simp
next
  case (Cons x xs)
  show ?case
  proof (cases "x = v")
    case True
    with Cons.prems show ?thesis by simp
  next
    case False
    with Cons.prems obtain k where k: "py_index xs v = Inr k" "i = Suc k"
      by (auto split: sum.splits)
    from Cons.IH[OF k(1)] have ih: "k < length xs" "xs ! k = v" "\<forall>j<k. xs ! j \<noteq> v" by auto
    have "\<forall>j<Suc k. (x # xs) ! j \<noteq> v"
    proof (intro allI impI)
      fix j assume "j < Suc k"
      then show "(x # xs) ! j \<noteq> v" using False ih(3) by (cases j) auto
    qed
    with ih k show ?thesis by simp
  qed
qed

lemma py_index_total: "v \<in> set xs \<Longrightarrow> \<exists>i. py_index xs v = Inr i"
  by (induction xs) auto

lemma best_emotion_Inr:
  assumes "best_emotion rec_result = Inr (l :: string)"
  shows "rec_result \<noteq> [] \<and>
    (\<exists>i. first_max_index (scores (hd rec_result)) i \<and> i < length (labels (hd rec_result))
         \<and> l = labels (hd rec_result) ! i)"
proof (cases rec_result)
  case Nil
  with assms show ?thesis by (simp add: best_emotion_def)
next
  case (Cons r rest)
  with assms obtain v i where v: "py_max (scores r) = Inr v" and i: "py_index (scores r) v = Inr i"
    and l: "i < length (labels r)" "l = labels r ! i"
    by (auto simp: best_emotion_def split: sum.splits if_splits)
  from py_max_Inr[OF v] have mx: "\<forall>y \<in> set (scores r). y \<le> v" by simp
  from py_index_Inr[OF i] have ix: "i < length (scores r)" "scores r ! i = v" "\<forall>j<i. scores r ! j \<noteq> v"
    by auto
  have "first_max_index (scores r) i"
    unfolding first_max_index_def
  proof (intro conjI allI impI)
    show "i < length (scores r)" by (rule ix(1))
  next
    fix j assume "j < length (scores r)"
    with mx ix(2) show "scores r ! j \<le> scores r ! i" by simp
  next
    fix j assume j: "j < i"
    with ix(1) have "j < length (scores r)" by simp
    with mx have "scores r ! j \<le> v" by simp
    moreover from ix(3) j have "scores r ! j \<noteq> v" by simp
    ultimately show "scores r ! j < scores r ! i" using ix(2) by simp
  qed
  with l Cons show ?thesis by auto
qed

lemma best_emotion_total:
  assumes "well_formed (rec_result :: ('s :: linorder) emotion_result list)"
  shows "\<exists>l. best_emotion rec_result = Inr l"
proof -
  from assms obtain r rest where c: "rec_result = r # rest" and ne: "scores r \<noteq> []"
    and len: "length (scores r) \<le> length (labels r)"
    by (cases rec_result) (auto simp: well_formed_def)
  from py_max_total[OF ne] obtain v where v: "py_max (scores r) = Inr v" by blast
  from py_max_Inr[OF v] have "v \<in> set (scores r)" by simp
  from py_index_total[OF this] obtain i where i: "py_index (scores r) v = Inr i" by blast
  from py_index_Inr[OF i] len have "i < length (labels r)" by simp
  with c v i show ?thesis by (simp add: best_emotion_def)
qed

lemma annotate_segment_total:
  assumes "well_formed (emotion_pipeline m path)"
  shows "\<exists>r. annotate_segment m path = Inr r"
proof -
  from best_emotion_total[OF assms] obtain l where "best_emotion (emotion_pipeline m path) = Inr l"
    by blast
  then show ?thesis
    by (simp add: annotate_segment_def Let_def split: asr_result.splits list.splits)
qed

lemma annotate_segment_Some:
  assumes "annotate_segment m path = Inr (Some r)"
  shows "best_emotion (emotion_pipeline m path) = Inr (Emotion r)"
  using assms
  by (auto simp: annotate_segment_def Let_def tag_record_def
      split: asr_result.splits list.splits sum.splits if_splits)

lemma segments_loop_results:
  assumes "\<forall>(i, segment) \<in> set segs. \<exists>r. annotate_segment m (segment_path m audio_file i segment) = Inr r"
  shows "fst (segments_loop m audio_file audio segs results fs)
       = Inr (results @ map AnnotatedSegment (List.map_filter (segment_result m audio_file) segs))"
  using assms
proof (induction segs arbitrary: results fs)
  case Nil
  then show ?case by (simp add: List.map_filter_simps)
next
  case (Cons x segs)
  obtain i segment where x: "x = (i, segment)" by (cases x)
  from Cons.prems x obtain r where r: "annotate_segment m (segment_path m audio_file i segment) = Inr r"
    by auto
  from Cons.prems have rest: "\<forall>(i, segment) \<in> set segs. \<exists>r. annotate_segment m (segment_path m audio_file i segment) = Inr r"
    by simp
  show ?case
  proof (cases r)
    case None
    with r x Cons.IH[OF rest] show ?thesis
      by (simp add: Let_def List.map_filter_simps segment_result_def)
  next
    case (Some d)
    with r x Cons.IH[OF rest] show ?thesis
      by (simp add: Let_def List.map_filter_simps segment_result_def)
  qed
qed

lemma segments_loop_folder:
  assumes "\<not> endswith name ''.wav''"
  shows "map_of (snd (segments_loop m audio_file audio segs results fs)) name = map_of fs name"
proof (induction segs arbitrary: results fs)
  case Nil
  then show ?case by simp
next
  case (Cons x segs)
  obtain i segment where x: "x = (i, segment)" by (cases x)
  have "endswith (segment_name m audio_file i segment) ''.wav''"
    by (simp add: segment_name_def endswith_def Let_def suffix_def)
  with assms have ne: "segment_name m audio_file i segment \<noteq> name" by auto
  show ?case unfolding x
    using ne Cons.IH
    by (auto simp: Let_def save_audio_def update_conv' split: sum.splits option.splits)
qed

subsection \<open>Cleanup\<close>

lemma delete_as_filter: "AList.delete k al = filter (\<lambda>(k', v). k' \<noteq> k) al"
  by (induction al) (auto simp: AList.delete_eq)

lemma fold_remove_filter:
  "fold (\<lambda>file fs'. if P file then remove file fs' else fs') names fs
     = filter (\<lambda>(k, v). \<not> (P k \<and> k \<in> set names)) fs"
proof (induction names arbitrary: fs)
  case Nil
  then show ?case by simp
next
  case (Cons n names)
  show ?case
  proof (cases "P n")
    case True
    have "filter (\<lambda>(k, v). \<not> (P k \<and> k \<in> set names)) (filter (\<lambda>(k', v). k' \<noteq> n) fs)
        = filter (\<lambda>(k, v). \<not> (P k \<and> k \<in> set (n # names))) fs"
      using True by (induction fs) auto
    with True Cons show ?thesis by (simp add: remove_def delete_as_filter)
  next
    case False
    have "filter (\<lambda>(k, v). \<not> (P k \<and> k \<in> set names)) fs
        = filter (\<lambda>(k, v). \<not> (P k \<and> k \<in> set (n # names))) fs"
      using False by (induction fs) auto
    with False Cons show ?thesis by simp
  qed
qed

lemma wav_not_json: "endswith file ''.wav'' \<Longrightarrow> file \<noteq> ''output_results.json''"
  by (auto simp: endswith_def suffix_def)

lemma cleanup_filter: "cleanup fs = filter (\<lambda>(k, v). \<not> endswith k ''.wav'') fs"
proof -
  have "cleanup fs = filter (\<lambda>(k, v). \<not> ((endswith k ''.wav'' \<and> k \<noteq> ''output_results.json'') \<and> k \<in> set (listdir fs))) fs"
    unfolding cleanup_def by (rule fold_remove_filter)
  also have "\<dots> = filter (\<lambda>(k, v). \<not> endswith k ''.wav'') fs"
    by (rule filter_cong) (force simp: listdir_def dest: wav_not_json)+
  finally show ?thesis .
qed

lemma map_of_filter_key:
  "map_of (filter (\<lambda>(k, v). Q k) al) name = (if Q name then map_of al name else None)"
  by (induction al) auto

lemma cleanup_map_of:
  "map_of (cleanup fs) name = (if endswith name ''.wav'' then None else map_of fs name)"
  by (simp add: cleanup_filter map_of_filter_key)

lemma cleanup_idem: "cleanup (cleanup fs) = cleanup fs"
  by (simp add: cleanup_filter)

lemma cleanup_nothing_left:
  "filter (\<lambda>file. endswith file ''.wav'' \<and> file \<noteq> ''output_results.json'') (listdir (cleanup fs)) = []"
  by (auto simp: cleanup_filter listdir_def filter_empty_conv)

lemma segment_name_wav: "endswith (segment_name m audio_file i segment) ''.wav''"
  by (simp add: segment_name_def endswith_def Let_def suffix_def)

lemma json_not_wav: "\<not> endswith ''output_results.json'' ''.wav''"
  by (simp add: endswith_def suffix_def)

subsection \<open>Segment artifacts lie in the results folder\<close>

lemma basename_rev: "basename p = rev (takeWhile (\<lambda>x. x \<noteq> CHR ''/'') (rev p))"
proof (cases "CHR ''/'' \<in> set p")
  case False
  then have tw: "takeWhile (\<lambda>x. x \<noteq> CHR ''/'') (rev p) = rev p"
    by (auto simp: takeWhile_eq_all_conv)
  from False show ?thesis by (simp add: basename_def rfind_def tw)
next
  case True
  define k where "k = length (takeWhile (\<lambda>x. x \<noteq> CHR ''/'') (rev p))"
  have tk: "takeWhile (\<lambda>x. x \<noteq> CHR ''/'') (rev p) = take k (rev p)"
    unfolding k_def by (rule takeWhile_eq_take)
  have ne: "takeWhile (\<lambda>x. x \<noteq> CHR ''/'') (rev p) \<noteq> rev p"
    using True by (auto simp: takeWhile_eq_all_conv)
  have "k \<le> length (rev p)" unfolding k_def by (rule length_takeWhile_le)
  moreover have "k \<noteq> length p"
  proof
    assume "k = length p"
    with tk have "takeWhile (\<lambda>x. x \<noteq> CHR ''/'') (rev p) = rev p" by simp
    with ne show False by simp
  qed
  ultimately have kl: "k < length p" by simp
  from tk have "rev (takeWhile (\<lambda>x. x \<noteq> CHR ''/'') (rev p)) = drop (length p - k) p"
    by (simp add: take_rev)
  moreover from True kl have "nat (rfind p (CHR ''/'') + 1) = length p - k"
    by (simp add: rfind_def k_def[symmetric])
  ultimately show ?thesis by (simp add: basename_def)
qed

lemma basename_no_sep: "CHR ''/'' \<notin> set (basename p)"
  unfolding basename_rev using set_takeWhileD by fastforce

lemma splitext_prefix: "prefix (fst (splitext b)) b"
  by (simp add: splitext_def Let_def take_is_prefix)

lemma segment_name_relative: "\<not> prefix ''/'' (segment_name m audio_file i segment)"
proof -
  define stem where "stem = fst (splitext (basename audio_file))"
  from splitext_prefix[of "basename audio_file"] obtain zs
    where "basename audio_file = stem @ zs" unfolding stem_def prefix_def by blast
  then have "set stem \<subseteq> set (basename audio_file)" by (metis set_append Un_upper1)
  with basename_no_sep[of audio_file] have "CHR ''/'' \<notin> set stem" by blast
  then have "\<not> prefix ''/'' (stem @ ''_segment_'' @ rest)" for rest
    by (cases stem) auto
  then show ?thesis by (simp add: segment_name_def Let_def stem_def)
qed

lemma segment_path_in_folder:
  "segment_path m audio_file i segment = ''./results/'' @ segment_name m audio_file i segment"
  using segment_name_relative[of m audio_file i segment]
  by (simp add: segment_path_def path_join_def RESULTS_FOLDER_def endswith_def suffix_def)

subsection \<open>The run as a whole\<close>

lemma segments_loop_Inr:
  assumes "segments_loop m audio_file audio segs results fs = (Inr res, fs')"
  shows "\<exists>rs. res = results @ map AnnotatedSegment rs
     \<and> (\<forall>r \<in> set rs. \<exists>k segment. (k, segment) \<in> set segs
           \<and> annotate_segment m (segment_path m audio_file k segment) = Inr (Some r))"
  using assms
proof (induction segs arbitrary: results fs)
  case Nil
  then have "res = results @ map AnnotatedSegment []" by simp
  then show ?case by (metis empty_iff list.set(1))
next
  case (Cons x segs)
  obtain i segment where x: "x = (i, segment)" by (cases x)
  define fs1 where "fs1 = save_audio (segment_name m audio_file i segment)
      (extract_segment audio (float_div (seg_start segment) 16000) (float_div (seg_end segment) 16000) 16000) fs"
  show ?case
  proof (cases "annotate_segment m (segment_path m audio_file i segment)")
    case (Inl err)
    with Cons.prems x show ?thesis by (simp add: Let_def)
  next
    case (Inr ro)
    show ?thesis
    proof (cases ro)
      case None
      with Inr Cons.prems x have "segments_loop m audio_file audio segs results fs1 = (Inr res, fs')"
        by (simp add: Let_def fs1_def)
      from Cons.IH[OF this] obtain rs where "res = results @ map AnnotatedSegment rs"
        "\<forall>r \<in> set rs. \<exists>k segment. (k, segment) \<in> set segs
           \<and> annotate_segment m (segment_path m audio_file k segment) = Inr (Some r)" by blast
      then show ?thesis unfolding x by (metis list.set_intros(2))
    next
      case (Some d)
      with Inr Cons.prems x
      have "segments_loop m audio_file audio segs (results @ [AnnotatedSegment d]) fs1 = (Inr res, fs')"
        by (simp add: Let_def fs1_def)
      from Cons.IH[OF this] obtain rs where rs: "res = (results @ [AnnotatedSegment d]) @ map AnnotatedSegment rs"
        "\<forall>r \<in> set rs. \<exists>k segment. (k, segment) \<in> set segs
           \<and> annotate_segment m (segment_path m audio_file k segment) = Inr (Some r)" by blast
      from rs(1) have a: "res = results @ map AnnotatedSegment (d # rs)" by simp
      have b: "\<forall>r \<in> set (d # rs). \<exists>k segment. (k, segment) \<in> set (x # segs)
           \<and> annotate_segment m (segment_path m audio_file k segment) = Inr (Some r)"
      proof
        fix r assume "r \<in> set (d # rs)"
        then consider "r = d" | "r \<in> set rs" by auto
        then show "\<exists>k segment. (k, segment) \<in> set (x # segs)
           \<and> annotate_segment m (segment_path m audio_file k segment) = Inr (Some r)"
        proof cases
          case 1
          with Inr Some x show ?thesis by auto
        next
          case 2
          with rs(2) show ?thesis by (metis list.set_intros(2))
        qed
      qed
      from a b show ?thesis by blast
    qed
  qed
qed

lemma build_results_total:
  assumes "\<forall>path. well_formed (emotion_pipeline m path)"
  shows "\<exists>best. best_emotion (emotion_pipeline m audio_file) = Inr best
     \<and> fst (build_results m audio_file fs)
         = Inr (OverallEmotion best # map AnnotatedSegment
             (List.map_filter (segment_result m audio_file)
               (List.enumerate 0 (get_speech_ts m (read_audio m audio_file)))))"
proof -
  from assms best_emotion_total obtain best where b: "best_emotion (emotion_pipeline m audio_file) = Inr best"
    by blast
  have "\<forall>(i, segment) \<in> set segs. \<exists>r. annotate_segment m (segment_path m audio_file i segment) = Inr r" for segs :: "(nat \<times> vad_segment) list"
    using assms annotate_segment_total by blast
  from segments_loop_results[OF this] b show ?thesis
    by (simp add: build_results_def Let_def)
qed

lemma build_results_folder:
  assumes "\<not> endswith name ''.wav''"
  shows "map_of (snd (build_results m audio_file fs)) name = map_of fs name"
  by (simp add: build_results_def Let_def segments_loop_folder[OF assms] split: sum.splits)

lemma process_no_fault:
  assumes "build_results m audio_file fs = (Inr results, fs1)"
  shows "\<exists>fs2. process_audio_file m NoFault audio_file fs = (Inr PyNone, fs2)
     \<and> map_of fs2 ''output_results.json'' = Some (TextFile (json_dumps results))
     \<and> (\<forall>name. endswith name ''.wav'' \<longrightarrow> map_of fs2 name = None)
     \<and> (\<forall>name. \<not> endswith name ''.wav'' \<and> name \<noteq> ''output_results.json'' \<longrightarrow> map_of fs2 name = map_of fs name)"
proof -
  define fs2 where "fs2 = cleanup (AList.update ''output_results.json'' (TextFile (json_dumps results)) fs1)"
  have p: "process_audio_file m NoFault audio_file fs = (Inr PyNone, fs2)"
    using assms by (simp add: process_audio_file_def dump_results_def fs2_def)
  have a: "map_of fs2 ''output_results.json'' = Some (TextFile (json_dumps results))"
    using json_not_wav by (simp add: fs2_def cleanup_map_of update_conv')
  have b: "\<forall>name. endswith name ''.wav'' \<longrightarrow> map_of fs2 name = None"
    by (simp add: fs2_def cleanup_map_of)
  have c: "\<forall>name. \<not> endswith name ''.wav'' \<and> name \<noteq> ''output_results.json'' \<longrightarrow> map_of fs2 name = map_of fs name"
  proof (intro allI impI)
    fix name assume n: "\<not> endswith name ''.wav'' \<and> name \<noteq> ''output_results.json''"
    from build_results_folder[of name m audio_file fs] n assms
    have "map_of fs1 name = map_of fs name" by simp
    with n show "map_of fs2 name = map_of fs name"
      by (simp add: fs2_def cleanup_map_of update_conv')
  qed
  from p a b c show ?thesis by blast
qed

subsection \<open>Some doubles\<close>

lemma double_1_10: "float_div 1 10 = 3602879701896397 / 36028797018963968"
  by code_simp

lemma double_ties:
  "double_round 9007199254740993 = 9007199254740992"
  "double_round 9007199254740995 = 9007199254740996"
  "double_round (3 / 4) = 3 / 4"
  by code_simp+

lemma double_7_10: "float_div 7 10 = 3152519739159347 / 4503599627370496"
  by code_simp

lemma product_7_10: "float_mul (3152519739159347 / 4503599627370496) 10 = 7"
  by code_simp

lemma double_1001: "float_div 1001 16000 = 2254051613498933 / 36028797018963968"
  by code_simp

lemma product_1001:
  "float_mul (2254051613498933 / 36028797018963968) 16000 = 8804889115230207 / 8796093022208"
  by code_simp

lemma double_1002: "float_div 1002 16000 = 4512606826625237 / 72057594037927936"
  by code_simp

lemma product_1002: "float_mul (4512606826625237 / 72057594037927936) 16000 = 1002"
  by code_simp

lemma index_1001: "py_int (float_mul (float_div 1001 16000) 16000) = 1000"
  unfolding double_1001 product_1001 by code_simp

lemma index_1002: "py_int (float_mul (float_div 1002 16000) 16000) = 1002"
  unfolding double_1002 product_1002 by (simp add: py_int_def)

lemma extract_1001:
  "extract_segment xs (float_div 1001 16000) (float_div 1002 16000) 16000 = py_slice xs 1000 1002"
  by (simp add: extract_segment_def index_1001 index_1002)

subsection \<open>The small run, step by step\<close>

lemma demo_index_1: "py_int (float_mul (float_div 1 16000) 16000) = 1"
  by code_simp

lemma demo_index_3: "py_int (float_mul (float_div 3 16000) 16000) = 3"
  by code_simp

lemma demo_index_5: "py_int (float_mul (float_div 5 16000) 16000) = 5"
  by code_simp

lemma demo_index_7: "py_int (float_mul (float_div 7 16000) 16000) = 7"
  by code_simp

lemma demo_extract:
  "extract_segment [10, 11, 12, 13, 14, 15, 16, 17 :: int] (float_div 1 16000) (float_div 3 16000) 16000
     = [11, 12]"
  "extract_segment [10, 11, 12, 13, 14, 15, 16, 17 :: int] (float_div 5 16000) (float_div 7 16000) 16000
     = [15, 16]"
  by (simp_all add: extract_segment_def demo_index_1 demo_index_3 demo_index_5 demo_index_7
      py_slice_def)

lemma demo_stem: "fst (splitext (basename ''./uploads/talk.wav'')) = ''talk''"
  by code_simp

lemma demo_str_nat: "str_nat (0 + 1) = ''1''" "str_nat (Suc 0 + 1) = ''2''"
  by code_simp+

lemma demo_format: "format_2f demo_models t = ''0.00''"
  by (simp add: demo_models_def)

lemma demo_name:
  "segment_name demo_models ''./uploads/talk.wav'' 0 segment = ''talk_segment_1_0.00-0.00.wav''"
  "segment_name demo_models ''./uploads/talk.wav'' (Suc 0) segment = ''talk_segment_2_0.00-0.00.wav''"
  unfolding segment_name_def Let_def demo_stem demo_format demo_str_nat
  by simp_all

lemma demo_join:
  "path_join RESULTS_FOLDER ''talk_segment_1_0.00-0.00.wav'' = ''./results/talk_segment_1_0.00-0.00.wav''"
  "path_join RESULTS_FOLDER ''talk_segment_2_0.00-0.00.wav'' = ''./results/talk_segment_2_0.00-0.00.wav''"
  by code_simp+

lemma demo_path:
  "segment_path demo_models ''./uploads/talk.wav'' 0 segment = ''./results/talk_segment_1_0.00-0.00.wav''"
  "segment_path demo_models ''./uploads/talk.wav'' (Suc 0) segment = ''./results/talk_segment_2_0.00-0.00.wav''"
  by (simp_all only: segment_path_def demo_name demo_join)

lemma demo_annotate:
  "annotate_segment demo_models ''./results/talk_segment_1_0.00-0.00.wav'' = Inr None"
  "annotate_segment demo_models ''./results/talk_segment_2_0.00-0.00.wav''
     = Inr (Some \<lparr>Language = ''EN'', Emotion = ''happy'', Audio_Type = ''speech'', Text = ''hi''\<rparr>)"
  by code_simp+

lemma demo_best: "best_emotion (emotion_pipeline demo_models p) = Inr ''happy''"
  by (simp add: demo_models_def best_emotion_def)

lemma demo_loop:
  "segments_loop demo_models ''./uploads/talk.wav'' [10, 11, 12, 13, 14, 15, 16, 17]
       [(0, \<lparr>seg_start = 1, seg_end = 3\<rparr>), (1, \<lparr>seg_start = 5, seg_end = 7\<rparr>)]
       [OverallEmotion ''happy''] []
     = (Inr [OverallEmotion ''happy'',
             AnnotatedSegment \<lparr>Language = ''EN'', Emotion = ''happy'', Audio_Type = ''speech'',
                               Text = ''hi''\<rparr>],
        [(''talk_segment_1_0.00-0.00.wav'', WavFile [11, 12]),
         (''talk_segment_2_0.00-0.00.wav'', WavFile [15, 16])])"
  by (simp add: Let_def demo_extract demo_name demo_path demo_annotate save_audio_def)

lemma demo_build:
  "build_results demo_models ''./uploads/talk.wav'' []
     = (Inr [OverallEmotion ''happy'',
             AnnotatedSegment \<lparr>Language = ''EN'', Emotion = ''happy'', Audio_Type = ''speech'',
                               Text = ''hi''\<rparr>],
        [(''talk_segment_1_0.00-0.00.wav'', WavFile [11, 12]),
         (''talk_segment_2_0.00-0.00.wav'', WavFile [15, 16])])"
proof -
  have "read_audio demo_models ''./uploads/talk.wav'' = [10, 11, 12, 13, 14, 15, 16, 17]"
    by (simp add: demo_models_def)
  moreover have "List.enumerate 0 (get_speech_ts demo_models a)
      = [(0, \<lparr>seg_start = 1, seg_end = 3\<rparr>), (1, \<lparr>seg_start = 5, seg_end = 7\<rparr>)]" for a :: "int list"
    by (simp add: demo_models_def)
  ultimately show ?thesis
    by (simp only: build_results_def demo_best Let_def sum.case demo_loop)
qed

lemma demo_process:
  "fst (process_audio_file demo_models NoFault ''./uploads/talk.wav'' []) = Inr PyNone"
  by (simp add: process_audio_file_def demo_build dump_results_def)

section \<open>The claims about the segment extractor\<close>

text \<open>
  Claim C5, as amended. Segment extraction never reads outside the buffer: for every
  buffer and every pair of times the result is a contiguous stretch of the buffer.
  A computed end sample at or above the buffer length cuts the slice at the end of
  the buffer. A computed start sample below 0 is not clamped to 0: it counts back
  from the end of the buffer, and only below minus the buffer length does it stand
  for 0.
\<close>

theorem extractor_slices_within_buffer:
  "(\<exists>lo hi. lo \<le> hi \<and> hi \<le> length audio
       \<and> extract_segment audio start_time end_time sample_rate = take (hi - lo) (drop lo audio))
   \<and> (0 \<le> py_int (float_mul start_time sample_rate)
        \<and> py_int (float_mul start_time sample_rate) \<le> int (length audio)
        \<and> int (length audio) \<le> py_int (float_mul end_time sample_rate) \<longrightarrow>
        extract_segment audio start_time end_time sample_rate
          = drop (nat (py_int (float_mul start_time sample_rate))) audio)
   \<and> (- int (length audio) \<le> py_int (float_mul start_time sample_rate)
        \<and> py_int (float_mul start_time sample_rate) < 0 \<longrightarrow>
        extract_segment audio start_time end_time sample_rate
          = py_slice audio (py_int (float_mul start_time sample_rate) + int (length audio))
              (py_int (float_mul end_time sample_rate)))
   \<and> (py_int (float_mul start_time sample_rate) < - int (length audio) \<longrightarrow>
        extract_segment audio start_time end_time sample_rate
          = py_slice audio 0 (py_int (float_mul end_time sample_rate)))"
  using py_slice_contiguous[of audio "py_int (float_mul start_time sample_rate)" "py_int (float_mul end_time sample_rate)"]
    py_slice_end_beyond[of "py_int (float_mul start_time sample_rate)" audio "py_int (float_mul end_time sample_rate)"]
    py_slice_negative_start[of audio "py_int (float_mul start_time sample_rate)" "py_int (float_mul end_time sample_rate)"]
    py_slice_far_negative_start[of "py_int (float_mul start_time sample_rate)" audio "py_int (float_mul end_time sample_rate)"]
  by (simp add: extract_segment_def)

theorem extractor_slices_within_buffer_witness:
  "(0::int) \<le> py_int (float_mul 2 1) \<and> py_int (float_mul 2 1) \<le> int (length [0, 1, 2, 3, 4 :: int])
   \<and> int (length [0, 1, 2, 3, 4 :: int]) \<le> py_int (float_mul 50 1)
   \<and> extract_segment [0, 1, 2, 3, 4 :: int] 2 50 1 = [2, 3, 4]
   \<and> - int (length [0, 1, 2, 3, 4 :: int]) \<le> py_int (float_mul (- 3) 1) \<and> py_int (float_mul (- 3) 1) < 0
   \<and> extract_segment [0, 1, 2, 3, 4 :: int] (- 3) 4 1 = [2, 3]
   \<and> py_int (float_mul (- 9) 1) < - int (length [0, 1, 2, 3, 4 :: int])
   \<and> extract_segment [0, 1, 2, 3, 4 :: int] (- 9) 2 1 = [0, 1]"
proof -
  have e: "py_int (float_mul 2 1) = 2" "py_int (float_mul 50 1) = 50"
    "py_int (float_mul (- 3) 1) = - 3" "py_int (float_mul 4 1) = 4"
    "py_int (float_mul (- 9) 1) = - 9"
    by code_simp+
  from extractor_slices_within_buffer [of "[0, 1, 2, 3, 4 :: int]" 2 50 1]
    extractor_slices_within_buffer [of "[0, 1, 2, 3, 4 :: int]" "- 3" 4 1]
    extractor_slices_within_buffer [of "[0, 1, 2, 3, 4 :: int]" "- 9" 2 1]
  show ?thesis unfolding e by (simp add: py_slice_def)
qed

text \<open>
  Claim C5 as stated, with a start sample below 0 clamped to 0, fails: on ten samples
  the range from -3 to 5 gives the empty slice, where clamping gives the first five
  samples.
\<close>

theorem extractor_clamps_counterexample:
  "extract_segment [0, 1, 2, 3, 4, 5, 6, 7, 8, 9 :: int] (- 3) 5 1 = []
   \<and> clamped_slice [0, 1, 2, 3, 4, 5, 6, 7, 8, 9 :: int] (py_int (float_mul (- 3) 1)) (py_int (float_mul 5 1))
       = [0, 1, 2, 3, 4]
   \<and> extract_segment [0, 1, 2, 3, 4, 5, 6, 7, 8, 9 :: int] (- 3) 5 1
       \<noteq> clamped_slice [0, 1, 2, 3, 4, 5, 6, 7, 8, 9 :: int] (py_int (float_mul (- 3) 1)) (py_int (float_mul 5 1))"
  by code_simp

text \<open>
  Claim C6, as amended. The extractor computes each sample index as the product of time
  and sample rate, rounded to a double as the program's multiplication rounds it and
  then truncated toward zero, and returns the half-open slice from the start index
  up to, not including, the end index: for indices inside the buffer its length is
  their difference and its \<open>k\<close>-th sample is the buffer's sample at start plus \<open>k\<close>.
  At the double nearest to 0.7 and the rate 10 the index is 7, the truncation of the
  rounded product, where the exact product would give 6.
\<close>

theorem extractor_truncates:
  "extract_segment audio start_time end_time sample_rate
     = py_slice audio (py_int (float_mul start_time sample_rate))
         (py_int (float_mul end_time sample_rate))
   \<and> float_mul start_time sample_rate
       = double_round (start_time * double_round (of_int sample_rate))
   \<and> (0 \<le> float_mul start_time sample_rate \<longrightarrow>
        of_int (py_int (float_mul start_time sample_rate)) \<le> float_mul start_time sample_rate
        \<and> float_mul start_time sample_rate < of_int (py_int (float_mul start_time sample_rate)) + 1)
   \<and> (float_mul start_time sample_rate < 0 \<longrightarrow>
        float_mul start_time sample_rate \<le> of_int (py_int (float_mul start_time sample_rate))
        \<and> of_int (py_int (float_mul start_time sample_rate)) - 1 < float_mul start_time sample_rate)
   \<and> (0 \<le> a \<and> a \<le> b \<and> b \<le> int (length audio) \<longrightarrow>
        length (py_slice audio a b) = nat (b - a)
        \<and> (\<forall>k<nat (b - a). py_slice audio a b ! k = audio ! (nat a + k)))
   \<and> float_div 7 10 = 3152519739159347 / 4503599627370496
   \<and> py_int (float_mul (float_div 7 10) 10) = 7
   \<and> py_int (float_div 7 10 * 10) = 6"
proof -
  have a: "extract_segment audio start_time end_time sample_rate
     = py_slice audio (py_int (float_mul start_time sample_rate))
         (py_int (float_mul end_time sample_rate))"
    by (simp add: extract_segment_def)
  have b: "float_mul start_time sample_rate
       = double_round (start_time * double_round (of_int sample_rate))"
    by (simp add: float_mul_def)
  note c = py_int_trunc [of "float_mul start_time sample_rate"]
  have d: "0 \<le> a \<and> a \<le> b \<and> b \<le> int (length audio) \<longrightarrow>
        length (py_slice audio a b) = nat (b - a)
        \<and> (\<forall>k<nat (b - a). py_slice audio a b ! k = audio ! (nat a + k))"
    using py_slice_nth [of a b audio] by simp
  note e1 = double_7_10
  have e2: "py_int (float_mul (float_div 7 10) 10) = 7"
    unfolding double_7_10 product_7_10 by (simp add: py_int_def)
  have e3: "py_int (float_div 7 10 * 10) = 6"
    unfolding double_7_10 by code_simp
  from c have c1: "0 \<le> float_mul start_time sample_rate \<longrightarrow>
        of_int (py_int (float_mul start_time sample_rate)) \<le> float_mul start_time sample_rate
        \<and> float_mul start_time sample_rate < of_int (py_int (float_mul start_time sample_rate)) + 1"
    and c2: "float_mul start_time sample_rate < 0 \<longrightarrow>
        float_mul start_time sample_rate \<le> of_int (py_int (float_mul start_time sample_rate))
        \<and> of_int (py_int (float_mul start_time sample_rate)) - 1 < float_mul start_time sample_rate"
    by blast+
  show ?thesis by (intro conjI) (rule a, rule b, rule c1, rule c2, rule d, rule e1, rule e2, rule e3)
qed

theorem extractor_truncates_witness:
  "(0::rat) \<le> float_mul (11 / 4) 1 \<and> py_int (float_mul (11 / 4) 1) = 2
   \<and> float_mul (11 / 4) 1 < of_int (py_int (float_mul (11 / 4) 1)) + 1
   \<and> float_mul (- 11 / 4) 1 < 0 \<and> py_int (float_mul (- 11 / 4) 1) = - 2
   \<and> float_mul (- 11 / 4) 1 \<le> of_int (py_int (float_mul (- 11 / 4) 1))
   \<and> (0::int) \<le> 1 \<and> (1::int) \<le> 3 \<and> 3 \<le> int (length [10, 20, 30 :: int])
   \<and> length (py_slice [10, 20, 30 :: int] 1 3) = 2
   \<and> extract_segment [10, 20, 30 :: int] (3 / 4) (11 / 4) 1 = [10, 20]"
proof -
  have p: "float_mul (11 / 4) 1 = 11 / 4" "float_mul (- 11 / 4) 1 = - 11 / 4"
    "float_mul (3 / 4) 1 = 3 / 4"
    by code_simp+
  have e: "py_int (11 / 4) = 2" "py_int (3 / 4) = 0" "py_int (- 11 / 4) = - 2"
    by code_simp+
  from extractor_truncates [of "[10, 20, 30 :: int]" "3 / 4" "11 / 4" 1 1 3]
    extractor_truncates [of "[10, 20, 30 :: int]" "11 / 4" "11 / 4" 1 1 3]
    extractor_truncates [of "[10, 20, 30 :: int]" "- 11 / 4" "11 / 4" 1 1 3]
  show ?thesis unfolding p e by (simp add: py_slice_def)
qed

text \<open>
  Claim C6 as stated, with rounding to the nearest index, fails: at sample rate 1 the
  times 3/4 and 11/4, both doubles, select the samples 0 and 1, where rounding
  selects 1 and 2.
\<close>

theorem extractor_rounds_counterexample:
  "extract_segment [10, 20, 30 :: int] (3 / 4) (11 / 4) 1 = [10, 20]
   \<and> extract_segment_rounded [10, 20, 30 :: int] (3 / 4) (11 / 4) 1 = [20, 30]
   \<and> py_int (float_mul (3 / 4) 1) \<noteq> round_half_even (float_mul (3 / 4) 1)
   \<and> extract_segment [10, 20, 30 :: int] (3 / 4) (11 / 4) 1
       \<noteq> extract_segment_rounded [10, 20, 30 :: int] (3 / 4) (11 / 4) 1"
  by code_simp

text \<open>
  Claim C10 fails on the program. The detected index 1001 divided by 16000 is rounded
  to a double below the exact quotient; the product with 16000 rounds to a double
  below 1001, and truncation gives 1000. For the detected range from 1001 to 1002
  the extractor returns, and the loop saves, the two samples at 1000 and 1001, where
  the slice between the detected indices is the one sample at 1001.
\<close>

theorem round_trip_loses_sample:
  "float_div 1001 16000 = 2254051613498933 / 36028797018963968
   \<and> float_div 1001 16000 < 1001 / 16000
   \<and> float_mul (float_div 1001 16000) 16000 = 8804889115230207 / 8796093022208
   \<and> float_mul (float_div 1001 16000) 16000 < 1001
   \<and> py_int (float_mul (float_div 1001 16000) 16000) = 1000
   \<and> py_int (float_mul (float_div 1002 16000) 16000) = 1002
   \<and> extract_segment audio (float_div 1001 16000) (float_div 1002 16000) 16000
       = py_slice audio 1000 1002
   \<and> extract_segment (replicate 1000 x @ [a, b] @ rest)
         (float_div 1001 16000) (float_div 1002 16000) 16000 = [a, b]
   \<and> py_slice (replicate 1000 x @ [a, b] @ rest) 1001 1002 = [b]
   \<and> map_of (snd (segments_loop m audio_file audio
                     [(i, \<lparr>seg_start = 1001, seg_end = 1002\<rparr>)] results fs))
          (segment_name m audio_file i \<lparr>seg_start = 1001, seg_end = 1002\<rparr>)
       = Some (WavFile (py_slice audio 1000 1002))"
proof -
  have l1: "float_div 1001 16000 < 1001 / 16000"
    unfolding double_1001 by code_simp
  have l2: "float_mul (float_div 1001 16000) 16000 = 8804889115230207 / 8796093022208"
    unfolding double_1001 by (rule product_1001)
  have l3: "float_mul (float_div 1001 16000) 16000 < 1001"
    unfolding l2 by code_simp
  have s1: "py_slice (replicate 1000 x @ [a, b] @ rest) 1000 1002 = [a, b]"
    by (simp add: py_slice_def)
  have s2: "py_slice (replicate 1000 x @ [a, b] @ rest) 1001 1002 = [b]"
    by (simp add: py_slice_def)
  have lp: "map_of (snd (segments_loop m audio_file audio
                     [(i, \<lparr>seg_start = 1001, seg_end = 1002\<rparr>)] results fs))
          (segment_name m audio_file i \<lparr>seg_start = 1001, seg_end = 1002\<rparr>)
       = Some (WavFile (py_slice audio 1000 1002))"
    by (simp add: Let_def save_audio_def update_conv' extract_1001
        split: sum.splits option.splits)
  show ?thesis
    by (intro conjI) (rule double_1001, rule l1, rule l2, rule l3, rule index_1001,
      rule index_1002, rule extract_1001, simp only: extract_1001 s1, rule s2, rule lp)
qed

section \<open>The claims about the result list\<close>

text \<open>
  Claim C2. When the classifier keeps its contract, every run builds a result list:
  its first element is the record of the overall emotion, also when no range is
  detected, and the elements after it are the records of the detected ranges, one
  for each range that yields a record, in the order in which the detector returned
  the ranges. That list is what the run writes to the result file.
\<close>

theorem result_list_shape:
  assumes "\<forall>path. well_formed (emotion_pipeline m path)"
  shows "\<exists>best fs1 fs2.
      best_emotion (emotion_pipeline m audio_file) = Inr best
    \<and> build_results m audio_file fs
        = (Inr (OverallEmotion best # map AnnotatedSegment
                 (List.map_filter (segment_result m audio_file)
                   (List.enumerate 0 (get_speech_ts m (read_audio m audio_file))))), fs1)
    \<and> process_audio_file m NoFault audio_file fs = (Inr PyNone, fs2)
    \<and> map_of fs2 ''output_results.json''
        = Some (TextFile (json_dumps (OverallEmotion best # map AnnotatedSegment
                 (List.map_filter (segment_result m audio_file)
                   (List.enumerate 0 (get_speech_ts m (read_audio m audio_file)))))))
    \<and> (get_speech_ts m (read_audio m audio_file) = [] \<longrightarrow>
         build_results m audio_file fs = (Inr [OverallEmotion best], fs))"
proof -
  from build_results_total[OF assms, of audio_file fs] obtain best
    where b: "best_emotion (emotion_pipeline m audio_file) = Inr best"
      and r: "fst (build_results m audio_file fs)
         = Inr (OverallEmotion best # map AnnotatedSegment
             (List.map_filter (segment_result m audio_file)
               (List.enumerate 0 (get_speech_ts m (read_audio m audio_file)))))"
    by blast
  obtain fs1 where f: "build_results m audio_file fs
        = (Inr (OverallEmotion best # map AnnotatedSegment
                 (List.map_filter (segment_result m audio_file)
                   (List.enumerate 0 (get_speech_ts m (read_audio m audio_file))))), fs1)"
    using r by (cases "build_results m audio_file fs") auto
  from process_no_fault[OF f] obtain fs2
    where p: "process_audio_file m NoFault audio_file fs = (Inr PyNone, fs2)"
      and a: "map_of fs2 ''output_results.json''
        = Some (TextFile (json_dumps (OverallEmotion best # map AnnotatedSegment
                 (List.map_filter (segment_result m audio_file)
                   (List.enumerate 0 (get_speech_ts m (read_audio m audio_file)))))))"
    by blast
  have z: "get_speech_ts m (read_audio m audio_file) = [] \<longrightarrow>
         build_results m audio_file fs = (Inr [OverallEmotion best], fs)"
    using b by (simp add: build_results_def Let_def)
  from b f p a z show ?thesis by blast
qed

theorem result_list_shape_witness:
  "(\<forall>path. well_formed (emotion_pipeline silent_models path))
   \<and> get_speech_ts silent_models (read_audio silent_models ''./uploads/talk.wav'') = []
   \<and> build_results silent_models ''./uploads/talk.wav'' [] = (Inr [OverallEmotion ''happy''], [])"
proof -
  have w: "\<forall>path. well_formed (emotion_pipeline silent_models path)"
    by (simp add: silent_models_def demo_models_def well_formed_def)
  have v: "get_speech_ts silent_models (read_audio silent_models ''./uploads/talk.wav'') = []"
    by (simp add: silent_models_def)
  have e: "best_emotion (emotion_pipeline silent_models ''./uploads/talk.wav'') = Inr ''happy''"
    by (simp add: silent_models_def demo_models_def best_emotion_def)
  from result_list_shape [OF w, of "''./uploads/talk.wav''" "[]"] v e
  have "build_results silent_models ''./uploads/talk.wav'' [] = (Inr [OverallEmotion ''happy''], [])"
    by auto
  with w v show ?thesis by blast
qed

text \<open>
  Claim C3. In every result list the overall label is the label at the first index of
  the greatest score of the classifier's output for the whole file, and the emotion
  of every segment record is the label at the first index of the greatest score of
  the classifier's output for that segment's artifact; the tag parser's record
  carries the label it is given, whatever the annotation holds.
\<close>

theorem emotion_labels_first_max:
  assumes "build_results m audio_file fs = (Inr results, fs1)"
  shows "\<exists>best rs. results = OverallEmotion best # map AnnotatedSegment rs
     \<and> (\<exists>i. first_max_index (scores (hd (emotion_pipeline m audio_file))) i
           \<and> i < length (labels (hd (emotion_pipeline m audio_file)))
           \<and> best = labels (hd (emotion_pipeline m audio_file)) ! i)
     \<and> (\<forall>r \<in> set rs. \<exists>k segment i.
           (k, segment) \<in> set (List.enumerate 0 (get_speech_ts m (read_audio m audio_file)))
         \<and> annotate_segment m (segment_path m audio_file k segment) = Inr (Some r)
         \<and> first_max_index (scores (hd (emotion_pipeline m (segment_path m audio_file k segment)))) i
         \<and> i < length (labels (hd (emotion_pipeline m (segment_path m audio_file k segment))))
         \<and> Emotion r = labels (hd (emotion_pipeline m (segment_path m audio_file k segment))) ! i)
     \<and> (\<forall>text_content label r. tag_record text_content label = Some r \<longrightarrow> Emotion r = label)"
proof -
  from assms obtain best where b: "best_emotion (emotion_pipeline m audio_file) = Inr best"
    and l: "segments_loop m audio_file (read_audio m audio_file)
              (List.enumerate 0 (get_speech_ts m (read_audio m audio_file)))
              [OverallEmotion best] fs = (Inr results, fs1)"
    by (auto simp: build_results_def Let_def split: sum.splits)
  from segments_loop_Inr[OF l] obtain rs where rs: "results = [OverallEmotion best] @ map AnnotatedSegment rs"
    and each: "\<forall>r \<in> set rs. \<exists>k segment.
        (k, segment) \<in> set (List.enumerate 0 (get_speech_ts m (read_audio m audio_file)))
        \<and> annotate_segment m (segment_path m audio_file k segment) = Inr (Some r)"
    by blast
  from best_emotion_Inr[OF b]
  have o: "\<exists>i. first_max_index (scores (hd (emotion_pipeline m audio_file))) i
           \<and> i < length (labels (hd (emotion_pipeline m audio_file)))
           \<and> best = labels (hd (emotion_pipeline m audio_file)) ! i"
    by blast
  have s: "\<forall>r \<in> set rs. \<exists>k segment i.
           (k, segment) \<in> set (List.enumerate 0 (get_speech_ts m (read_audio m audio_file)))
         \<and> annotate_segment m (segment_path m audio_file k segment) = Inr (Some r)
         \<and> first_max_index (scores (hd (emotion_pipeline m (segment_path m audio_file k segment)))) i
         \<and> i < length (labels (hd (emotion_pipeline m (segment_path m audio_file k segment))))
         \<and> Emotion r = labels (hd (emotion_pipeline m (segment_path m audio_file k segment))) ! i"
  proof
    fix r assume "r \<in> set rs"
    with each obtain k segment
      where ks: "(k, segment) \<in> set (List.enumerate 0 (get_speech_ts m (read_audio m audio_file)))"
        and an: "annotate_segment m (segment_path m audio_file k segment) = Inr (Some r)"
      by blast
    from best_emotion_Inr[OF annotate_segment_Some[OF an]] obtain i
      where "first_max_index (scores (hd (emotion_pipeline m (segment_path m audio_file k segment)))) i"
        "i < length (labels (hd (emotion_pipeline m (segment_path m audio_file k segment))))"
        "Emotion r = labels (hd (emotion_pipeline m (segment_path m audio_file k segment))) ! i"
      by blast
    with ks an show "\<exists>k segment i.
           (k, segment) \<in> set (List.enumerate 0 (get_speech_ts m (read_audio m audio_file)))
         \<and> annotate_segment m (segment_path m audio_file k segment) = Inr (Some r)
         \<and> first_max_index (scores (hd (emotion_pipeline m (segment_path m audio_file k segment)))) i
         \<and> i < length (labels (hd (emotion_pipeline m (segment_path m audio_file k segment))))
         \<and> Emotion r = labels (hd (emotion_pipeline m (segment_path m audio_file k segment))) ! i"
      by blast
  qed
  have t: "\<forall>text_content label r. tag_record text_content label = Some r \<longrightarrow> Emotion r = label"
    by (auto simp: tag_record_def Let_def split: if_splits)
  from rs have "results = OverallEmotion best # map AnnotatedSegment rs" by simp
  with o s t show ?thesis by blast
qed

theorem emotion_labels_first_max_witness: "build_results demo_models ''./uploads/talk.wav'' []
     = (Inr [OverallEmotion ''happy'',
             AnnotatedSegment \<lparr>Language = ''EN'', Emotion = ''happy'', Audio_Type = ''speech'',
                               Text = ''hi''\<rparr>],
        [(''talk_segment_1_0.00-0.00.wav'', WavFile [11, 12]),
         (''talk_segment_2_0.00-0.00.wav'', WavFile [15, 16])])
   \<and> (\<exists>i. first_max_index (scores (hd (emotion_pipeline demo_models ''./uploads/talk.wav''))) i
         \<and> ''happy'' = labels (hd (emotion_pipeline demo_models ''./uploads/talk.wav'')) ! i)
   \<and> (\<exists>i. first_max_index [1, 3, 3 :: int] i
         \<and> Emotion \<lparr>Language = ''EN'', Emotion = ''happy'', Audio_Type = ''speech'', Text = ''hi''\<rparr>
             = [''angry'', ''happy'', ''sad''] ! i)"
proof -
  have b: "build_results demo_models ''./uploads/talk.wav'' []
     = (Inr [OverallEmotion ''happy'',
             AnnotatedSegment \<lparr>Language = ''EN'', Emotion = ''happy'', Audio_Type = ''speech'',
                               Text = ''hi''\<rparr>],
        [(''talk_segment_1_0.00-0.00.wav'', WavFile [11, 12]),
         (''talk_segment_2_0.00-0.00.wav'', WavFile [15, 16])])"
    by (rule demo_build)
  have e: "emotion_pipeline demo_models p = [\<lparr>labels = [''angry'', ''happy'', ''sad''], scores = [1, 3, 3]\<rparr>]" for p
    by (simp add: demo_models_def)
  from emotion_labels_first_max [OF b] obtain best where "\<exists>rs.
       [OverallEmotion ''happy'',
        AnnotatedSegment \<lparr>Language = ''EN'', Emotion = ''happy'', Audio_Type = ''speech'',
                          Text = ''hi''\<rparr>] = OverallEmotion best # map AnnotatedSegment rs
     \<and> (\<exists>i. first_max_index (scores (hd (emotion_pipeline demo_models ''./uploads/talk.wav''))) i
           \<and> i < length (labels (hd (emotion_pipeline demo_models ''./uploads/talk.wav'')))
           \<and> best = labels (hd (emotion_pipeline demo_models ''./uploads/talk.wav'')) ! i)
     \<and> (\<forall>r \<in> set rs. \<exists>k segment i.
           (k, segment) \<in> set (List.enumerate 0 (get_speech_ts demo_models (read_audio demo_models ''./uploads/talk.wav'')))
         \<and> annotate_segment demo_models (segment_path demo_models ''./uploads/talk.wav'' k segment) = Inr (Some r)
         \<and> first_max_index (scores (hd (emotion_pipeline demo_models (segment_path demo_models ''./uploads/talk.wav'' k segment)))) i
         \<and> i < length (labels (hd (emotion_pipeline demo_models (segment_path demo_models ''./uploads/talk.wav'' k segment))))
         \<and> Emotion r = labels (hd (emotion_pipeline demo_models (segment_path demo_models ''./uploads/talk.wav'' k segment))) ! i)
     \<and> (\<forall>text_content label r. tag_record text_content label = Some r \<longrightarrow> Emotion r = label)" ..
  then obtain rs where body:
      "[OverallEmotion ''happy'',
        AnnotatedSegment \<lparr>Language = ''EN'', Emotion = ''happy'', Audio_Type = ''speech'',
                          Text = ''hi''\<rparr>] = OverallEmotion best # map AnnotatedSegment rs
     \<and> (\<exists>i. first_max_index (scores (hd (emotion_pipeline demo_models ''./uploads/talk.wav''))) i
           \<and> i < length (labels (hd (emotion_pipeline demo_models ''./uploads/talk.wav'')))
           \<and> best = labels (hd (emotion_pipeline demo_models ''./uploads/talk.wav'')) ! i)
     \<and> (\<forall>r \<in> set rs. \<exists>k segment i.
           (k, segment) \<in> set (List.enumerate 0 (get_speech_ts demo_models (read_audio demo_models ''./uploads/talk.wav'')))
         \<and> annotate_segment demo_models (segment_path demo_models ''./uploads/talk.wav'' k segment) = Inr (Some r)
         \<and> first_max_index (scores (hd (emotion_pipeline demo_models (segment_path demo_models ''./uploads/talk.wav'' k segment)))) i
         \<and> i < length (labels (hd (emotion_pipeline demo_models (segment_path demo_models ''./uploads/talk.wav'' k segment))))
         \<and> Emotion r = labels (hd (emotion_pipeline demo_models (segment_path demo_models ''./uploads/talk.wav'' k segment))) ! i)
     \<and> (\<forall>text_content label r. tag_record text_content label = Some r \<longrightarrow> Emotion r = label)" ..
  note r = body [THEN conjunct1]
  note o = body [THEN conjunct2, THEN conjunct1]
  note s = body [THEN conjunct2, THEN conjunct2, THEN conjunct1, unfolded e]
  from r have b1: "best = ''happy''" by simp
  from r have "rs = [\<lparr>Language = ''EN'', Emotion = ''happy'', Audio_Type = ''speech'', Text = ''hi''\<rparr>]"
    by (cases rs) auto
  then have r1: "\<lparr>Language = ''EN'', Emotion = ''happy'', Audio_Type = ''speech'', Text = ''hi''\<rparr> \<in> set rs"
    by simp
  from s r1 obtain k :: nat and segment :: vad_segment and i
    where "first_max_index (scores (hd [\<lparr>labels = [''angry'', ''happy'', ''sad''], scores = [1, 3, 3 :: int]\<rparr>])) i
         \<and> Emotion \<lparr>Language = ''EN'', Emotion = ''happy'', Audio_Type = ''speech'', Text = ''hi''\<rparr>
           = labels (hd [\<lparr>labels = [''angry'', ''happy'', ''sad''], scores = [1, 3, 3 :: int]\<rparr>]) ! i"
    by blast
  then have "first_max_index [1, 3, 3 :: int] i
         \<and> Emotion \<lparr>Language = ''EN'', Emotion = ''happy'', Audio_Type = ''speech'', Text = ''hi''\<rparr>
             = [''angry'', ''happy'', ''sad''] ! i"
    by simp
  then have sg: "\<exists>i. first_max_index [1, 3, 3 :: int] i
         \<and> Emotion \<lparr>Language = ''EN'', Emotion = ''happy'', Audio_Type = ''speech'', Text = ''hi''\<rparr>
             = [''angry'', ''happy'', ''sad''] ! i"
    by (rule exI)
  from o b1 have ov: "\<exists>i. first_max_index (scores (hd (emotion_pipeline demo_models ''./uploads/talk.wav''))) i
         \<and> ''happy'' = labels (hd (emotion_pipeline demo_models ''./uploads/talk.wav'')) ! i"
    by auto
  show ?thesis by (intro conjI) (rule b, rule ov, rule sg)
qed

text \<open>
  Claim C4. When the recogniser has no usable transcript for the artifact of a range
  (its result is not a list, is an empty list, or has a first entry with no text or
  an empty text) and the classifier keeps its contract on that artifact, the range
  gives no record, no error is raised and the loop goes on with the ranges that
  follow. With two ranges of which the other one yields a record, whichever comes
  first, the result list has two elements: the overall record and that record.
\<close>

theorem asr_miss_skips_segment:
  assumes "no_transcript (asr_pipeline m (segment_path m audio_file i segment))"
      and "well_formed (emotion_pipeline m (segment_path m audio_file i segment))"
  shows "annotate_segment m (segment_path m audio_file i segment) = Inr None
     \<and> (\<exists>fs'. segments_loop m audio_file audio ((i, segment) # rest) results fs
               = segments_loop m audio_file audio rest results fs')
     \<and> (\<forall>j other r. annotate_segment m (segment_path m audio_file j other) = Inr (Some r) \<longrightarrow>
          fst (segments_loop m audio_file audio [(i, segment), (j, other)] [OverallEmotion best] fs)
            = Inr [OverallEmotion best, AnnotatedSegment r]
          \<and> fst (segments_loop m audio_file audio [(j, other), (i, segment)] [OverallEmotion best] fs)
            = Inr [OverallEmotion best, AnnotatedSegment r])"
proof -
  from best_emotion_total[OF assms(2)] obtain l
    where l: "best_emotion (emotion_pipeline m (segment_path m audio_file i segment)) = Inr l"
    by blast
  have e: "extracted_info [] = []"
    by (simp add: extracted_info_def split_def)
  have a: "annotate_segment m (segment_path m audio_file i segment) = Inr None"
    using assms(1) l e
    by (auto simp: annotate_segment_def no_transcript_def tag_record_def Let_def
        split: asr_result.splits list.splits option.splits)
  have b: "\<exists>fs'. segments_loop m audio_file audio ((i, segment) # rest) results fs
               = segments_loop m audio_file audio rest results fs'"
    using a
    by (intro exI[of _ "save_audio (segment_name m audio_file i segment)
          (extract_segment audio (float_div (seg_start segment) 16000)
            (float_div (seg_end segment) 16000) 16000) fs"])
      (simp add: Let_def)
  have c: "\<forall>j other r. annotate_segment m (segment_path m audio_file j other) = Inr (Some r) \<longrightarrow>
          fst (segments_loop m audio_file audio [(i, segment), (j, other)] [OverallEmotion best] fs)
            = Inr [OverallEmotion best, AnnotatedSegment r]
          \<and> fst (segments_loop m audio_file audio [(j, other), (i, segment)] [OverallEmotion best] fs)
            = Inr [OverallEmotion best, AnnotatedSegment r]"
    using a by (simp add: Let_def)
  from a b c show ?thesis by blast
qed

theorem asr_miss_skips_segment_witness:
  "no_transcript (asr_pipeline demo_models
      (segment_path demo_models ''./uploads/talk.wav'' 0 \<lparr>seg_start = 1, seg_end = 3\<rparr>))
   \<and> well_formed (emotion_pipeline demo_models
      (segment_path demo_models ''./uploads/talk.wav'' 0 \<lparr>seg_start = 1, seg_end = 3\<rparr>))
   \<and> annotate_segment demo_models
        (segment_path demo_models ''./uploads/talk.wav'' 1 \<lparr>seg_start = 5, seg_end = 7\<rparr>)
       = Inr (Some \<lparr>Language = ''EN'', Emotion = ''happy'', Audio_Type = ''speech'', Text = ''hi''\<rparr>)
   \<and> fst (segments_loop demo_models ''./uploads/talk.wav'' [10, 11, 12, 13, 14, 15, 16, 17]
          [(0, \<lparr>seg_start = 1, seg_end = 3\<rparr>), (1, \<lparr>seg_start = 5, seg_end = 7\<rparr>)]
          [OverallEmotion ''happy''] [])
       = Inr [OverallEmotion ''happy'',
              AnnotatedSegment \<lparr>Language = ''EN'', Emotion = ''happy'', Audio_Type = ''speech'',
                                Text = ''hi''\<rparr>]"
proof -
  have h1: "no_transcript (asr_pipeline demo_models
      (segment_path demo_models ''./uploads/talk.wav'' 0 \<lparr>seg_start = 1, seg_end = 3\<rparr>))"
    unfolding demo_path by code_simp
  have h2: "well_formed (emotion_pipeline demo_models
      (segment_path demo_models ''./uploads/talk.wav'' 0 \<lparr>seg_start = 1, seg_end = 3\<rparr>))"
    by (simp add: demo_models_def well_formed_def)
  have h3: "annotate_segment demo_models
        (segment_path demo_models ''./uploads/talk.wav'' 1 \<lparr>seg_start = 5, seg_end = 7\<rparr>)
       = Inr (Some \<lparr>Language = ''EN'', Emotion = ''happy'', Audio_Type = ''speech'', Text = ''hi''\<rparr>)"
    by (simp add: demo_path demo_annotate)
  from asr_miss_skips_segment [OF h1 h2, where audio = "[10, 11, 12, 13, 14, 15, 16, 17]"
      and best = "''happy''" and fs = "[]"] h3
  have "fst (segments_loop demo_models ''./uploads/talk.wav'' [10, 11, 12, 13, 14, 15, 16, 17]
          [(0, \<lparr>seg_start = 1, seg_end = 3\<rparr>), (1, \<lparr>seg_start = 5, seg_end = 7\<rparr>)]
          [OverallEmotion ''happy''] [])
       = Inr [OverallEmotion ''happy'',
              AnnotatedSegment \<lparr>Language = ''EN'', Emotion = ''happy'', Audio_Type = ''speech'',
                                Text = ''hi''\<rparr>]"
    by blast
  with h1 h2 h3 show ?thesis by blast
qed

section \<open>The claims about the files\<close>

text \<open>
  Claim C7. Cleanup removes the files of the results folder whose names end in
  \<^verbatim>\<open>.wav\<close>, the extension of every segment artifact, and no other file; the result
  file stays as it is. A second cleanup changes nothing and finds no file to remove.
  After a run that completes, the result file holds the serialised result list and
  no segment artifact is left; when the folder held no \<^verbatim>\<open>.wav\<close> file before the run,
  as after any completed run, every other file of before the run is still there.
\<close>

theorem cleanup_scoped_idempotent:
  "(\<forall>name. map_of (cleanup fs) name = (if endswith name ''.wav'' then None else map_of fs name))
   \<and> map_of (cleanup fs) ''output_results.json'' = map_of fs ''output_results.json''
   \<and> endswith (segment_name m audio_file i segment) ''.wav''
   \<and> cleanup (cleanup fs) = cleanup fs
   \<and> filter (\<lambda>file. endswith file ''.wav'' \<and> file \<noteq> ''output_results.json'')
        (listdir (cleanup fs)) = []
   \<and> (\<forall>results fs1. build_results m audio_file fs = (Inr results, fs1) \<longrightarrow>
        (\<exists>fs2. process_audio_file m NoFault audio_file fs = (Inr PyNone, fs2)
           \<and> map_of fs2 ''output_results.json'' = Some (TextFile (json_dumps results))
           \<and> map_of fs2 (segment_name m audio_file i segment) = None
           \<and> cleanup fs2 = fs2
           \<and> ((\<forall>name. endswith name ''.wav'' \<longrightarrow> map_of fs name = None) \<longrightarrow>
                (\<forall>name. name \<noteq> ''output_results.json'' \<longrightarrow> map_of fs2 name = map_of fs name))))"
proof -
  have a: "\<forall>name. map_of (cleanup fs) name = (if endswith name ''.wav'' then None else map_of fs name)"
    by (simp add: cleanup_map_of)
  have b: "map_of (cleanup fs) ''output_results.json'' = map_of fs ''output_results.json''"
    using json_not_wav by (simp add: cleanup_map_of)
  have c: "endswith (segment_name m audio_file i segment) ''.wav''"
    by (rule segment_name_wav)
  have d: "cleanup (cleanup fs) = cleanup fs"
    by (rule cleanup_idem)
  have e: "filter (\<lambda>file. endswith file ''.wav'' \<and> file \<noteq> ''output_results.json'')
        (listdir (cleanup fs)) = []"
    by (rule cleanup_nothing_left)
  have f: "\<forall>results fs1. build_results m audio_file fs = (Inr results, fs1) \<longrightarrow>
        (\<exists>fs2. process_audio_file m NoFault audio_file fs = (Inr PyNone, fs2)
           \<and> map_of fs2 ''output_results.json'' = Some (TextFile (json_dumps results))
           \<and> map_of fs2 (segment_name m audio_file i segment) = None
           \<and> cleanup fs2 = fs2
           \<and> ((\<forall>name. endswith name ''.wav'' \<longrightarrow> map_of fs name = None) \<longrightarrow>
                (\<forall>name. name \<noteq> ''output_results.json'' \<longrightarrow> map_of fs2 name = map_of fs name)))"
  proof (intro allI impI)
    fix results fs1 assume br: "build_results m audio_file fs = (Inr results, fs1)"
    define fs2 where "fs2 = cleanup (AList.update ''output_results.json'' (TextFile (json_dumps results)) fs1)"
    have p: "process_audio_file m NoFault audio_file fs = (Inr PyNone, fs2)"
      using br by (simp add: process_audio_file_def dump_results_def fs2_def)
    have "map_of fs2 ''output_results.json'' = Some (TextFile (json_dumps results))"
      using json_not_wav by (simp add: fs2_def cleanup_map_of update_conv')
    moreover have "map_of fs2 (segment_name m audio_file i segment) = None"
      using c by (simp add: fs2_def cleanup_map_of)
    moreover have "cleanup fs2 = fs2" by (simp add: fs2_def cleanup_idem)
    moreover have "(\<forall>name. endswith name ''.wav'' \<longrightarrow> map_of fs name = None) \<longrightarrow>
                (\<forall>name. name \<noteq> ''output_results.json'' \<longrightarrow> map_of fs2 name = map_of fs name)"
    proof (intro allI impI)
      fix name
      assume nw: "\<forall>name. endswith name ''.wav'' \<longrightarrow> map_of fs name = None"
        and no: "name \<noteq> ''output_results.json''"
      show "map_of fs2 name = map_of fs name"
      proof (cases "endswith name ''.wav''")
        case True
        with nw show ?thesis by (simp add: fs2_def cleanup_map_of)
      next
        case False
        from build_results_folder[OF False, of m audio_file fs] br
        have "map_of fs1 name = map_of fs name" by simp
        with False no show ?thesis by (simp add: fs2_def cleanup_map_of update_conv')
      qed
    qed
    ultimately show "\<exists>fs2. process_audio_file m NoFault audio_file fs = (Inr PyNone, fs2)
           \<and> map_of fs2 ''output_results.json'' = Some (TextFile (json_dumps results))
           \<and> map_of fs2 (segment_name m audio_file i segment) = None
           \<and> cleanup fs2 = fs2
           \<and> ((\<forall>name. endswith name ''.wav'' \<longrightarrow> map_of fs name = None) \<longrightarrow>
                (\<forall>name. name \<noteq> ''output_results.json'' \<longrightarrow> map_of fs2 name = map_of fs name))"
      using p by blast
  qed
  from a b c d e f show ?thesis by blast
qed

theorem cleanup_scoped_idempotent_witness:
  "build_results silent_models ''./uploads/talk.wav''
      [(''talk_segment_1_0.00-0.10.wav'', WavFile [1, 2]), (''notes.txt'', TextFile ''keep'')]
     = (Inr [OverallEmotion ''happy''],
        [(''talk_segment_1_0.00-0.10.wav'', WavFile [1, 2]), (''notes.txt'', TextFile ''keep'')])
   \<and> (\<exists>fs2. process_audio_file silent_models NoFault ''./uploads/talk.wav''
               [(''talk_segment_1_0.00-0.10.wav'', WavFile [1, 2]), (''notes.txt'', TextFile ''keep'')]
             = (Inr PyNone, fs2)
          \<and> map_of fs2 ''output_results.json''
              = Some (TextFile (json_dumps [OverallEmotion ''happy'']))
          \<and> cleanup fs2 = fs2)"
proof -
  have b: "build_results silent_models ''./uploads/talk.wav''
      [(''talk_segment_1_0.00-0.10.wav'', WavFile [1, 2]), (''notes.txt'', TextFile ''keep'')]
     = (Inr [OverallEmotion ''happy''],
        [(''talk_segment_1_0.00-0.10.wav'', WavFile [1, 2]), (''notes.txt'', TextFile ''keep'')])"
    by (simp add: build_results_def silent_models_def demo_models_def best_emotion_def)
  from cleanup_scoped_idempotent
    [of "[(''talk_segment_1_0.00-0.10.wav'', WavFile [1, 2]), (''notes.txt'', TextFile ''keep'')]"
        silent_models "''./uploads/talk.wav''" 0 "\<lparr>seg_start = 0, seg_end = 1\<rparr>"] b
  have "\<exists>fs2. process_audio_file silent_models NoFault ''./uploads/talk.wav''
               [(''talk_segment_1_0.00-0.10.wav'', WavFile [1, 2]), (''notes.txt'', TextFile ''keep'')]
             = (Inr PyNone, fs2)
          \<and> map_of fs2 ''output_results.json''
              = Some (TextFile (json_dumps [OverallEmotion ''happy'']))
          \<and> cleanup fs2 = fs2"
    by blast
  with b show ?thesis by blast
qed

text \<open>
  Claim C8, as amended. When the result file cannot be opened for writing, the run
  fails and the result file is as it was before the run. When the write fails after
  the file has been opened, the run fails and the result file holds only the part of
  the serialisation written so far: the file is written in place, and nothing
  restores what it held before. A run without such a failure leaves the complete
  serialisation.
\<close>

theorem write_failure_outcomes:
  assumes "build_results m audio_file fs = (Inr results, fs1)"
  shows "process_audio_file m OpenFails audio_file fs = (Inl OSError, fs1)
     \<and> map_of fs1 ''output_results.json'' = map_of fs ''output_results.json''
     \<and> (\<exists>fs2. process_audio_file m (WriteFails n) audio_file fs = (Inl OSError, fs2)
            \<and> map_of fs2 ''output_results.json''
                = Some (TextFile (take n (json_dumps results))))
     \<and> (\<exists>fs2. process_audio_file m NoFault audio_file fs = (Inr PyNone, fs2)
            \<and> map_of fs2 ''output_results.json'' = Some (TextFile (json_dumps results)))"
proof -
  have a: "process_audio_file m OpenFails audio_file fs = (Inl OSError, fs1)"
    using assms by (simp add: process_audio_file_def dump_results_def)
  have b: "map_of fs1 ''output_results.json'' = map_of fs ''output_results.json''"
    using build_results_folder[OF json_not_wav, of m audio_file fs] assms by simp
  have c: "\<exists>fs2. process_audio_file m (WriteFails n) audio_file fs = (Inl OSError, fs2)
            \<and> map_of fs2 ''output_results.json''
                = Some (TextFile (take n (json_dumps results)))"
    using assms by (simp add: process_audio_file_def dump_results_def update_conv')
  from process_no_fault[OF assms]
  have d: "\<exists>fs2. process_audio_file m NoFault audio_file fs = (Inr PyNone, fs2)
            \<and> map_of fs2 ''output_results.json'' = Some (TextFile (json_dumps results))"
    by blast
  from a b c d show ?thesis by blast
qed

theorem write_failure_outcomes_witness:
  "build_results silent_models ''./uploads/talk.wav'' [(''output_results.json'', TextFile ''old'')]
     = (Inr [OverallEmotion ''happy''], [(''output_results.json'', TextFile ''old'')])
   \<and> process_audio_file silent_models OpenFails ''./uploads/talk.wav''
        [(''output_results.json'', TextFile ''old'')]
       = (Inl OSError, [(''output_results.json'', TextFile ''old'')])"
proof -
  have b: "build_results silent_models ''./uploads/talk.wav'' [(''output_results.json'', TextFile ''old'')]
     = (Inr [OverallEmotion ''happy''], [(''output_results.json'', TextFile ''old'')])"
    by (simp add: build_results_def silent_models_def demo_models_def best_emotion_def)
  from write_failure_outcomes [OF b] b show ?thesis by blast
qed

text \<open>
  Claim C8 as stated fails: a write that breaks after seven characters leaves a
  result file that is neither the file of before the run nor the complete
  serialisation.
\<close>

theorem write_failure_counterexample:
  "fst (process_audio_file silent_models (WriteFails 7) ''./uploads/talk.wav''
          [(''output_results.json'', TextFile ''old'')]) = Inl OSError
   \<and> map_of (snd (process_audio_file silent_models (WriteFails 7) ''./uploads/talk.wav''
          [(''output_results.json'', TextFile ''old'')])) ''output_results.json''
       = Some (TextFile (take 7 (json_dumps [OverallEmotion ''happy''])))
   \<and> take 7 (json_dumps [OverallEmotion ''happy'']) \<noteq> ''old''
   \<and> take 7 (json_dumps [OverallEmotion ''happy'']) \<noteq> json_dumps [OverallEmotion ''happy'']"
  by code_simp

text \<open>
  Claim C9, as amended. The run hands no result list back to its caller: whenever it
  returns, it returns \<^verbatim>\<open>None\<close>, and the result list it has built is then the content
  of the result file.
\<close>

theorem run_returns_none:
  "fst (process_audio_file m fault audio_file fs) \<noteq> Inr (PyResults rs)
   \<and> (process_audio_file m fault audio_file fs = (Inr v, fs2) \<longrightarrow>
        v = PyNone \<and> fault = NoFault
        \<and> (\<exists>results fs1. build_results m audio_file fs = (Inr results, fs1)
              \<and> map_of fs2 ''output_results.json'' = Some (TextFile (json_dumps results))))"
proof -
  have a: "fst (process_audio_file m fault audio_file fs) \<noteq> Inr (PyResults rs)"
    by (auto simp: process_audio_file_def dump_results_def split: prod.splits sum.splits io_fault.splits)
  have b: "process_audio_file m fault audio_file fs = (Inr v, fs2) \<longrightarrow>
        v = PyNone \<and> fault = NoFault
        \<and> (\<exists>results fs1. build_results m audio_file fs = (Inr results, fs1)
              \<and> map_of fs2 ''output_results.json'' = Some (TextFile (json_dumps results)))"
  proof
    assume p: "process_audio_file m fault audio_file fs = (Inr v, fs2)"
    then obtain results fs1 where br: "build_results m audio_file fs = (Inr results, fs1)"
      by (cases "build_results m audio_file fs")
        (auto simp: process_audio_file_def split: sum.splits)
    from p br have nf: "fault = NoFault" and v: "v = PyNone"
      by (auto simp: process_audio_file_def dump_results_def split: io_fault.splits)
    from process_no_fault[OF br] p nf
    have "map_of fs2 ''output_results.json'' = Some (TextFile (json_dumps results))" by auto
    with br nf v show "v = PyNone \<and> fault = NoFault
        \<and> (\<exists>results fs1. build_results m audio_file fs = (Inr results, fs1)
              \<and> map_of fs2 ''output_results.json'' = Some (TextFile (json_dumps results)))"
      by blast
  qed
  from a b show ?thesis by blast
qed

theorem run_returns_none_witness:
  "process_audio_file silent_models NoFault ''./uploads/talk.wav'' []
     = (Inr PyNone, [(''output_results.json'', TextFile (json_dumps [OverallEmotion ''happy'']))])
   \<and> build_results silent_models ''./uploads/talk.wav'' [] = (Inr [OverallEmotion ''happy''], [])"
proof -
  have p: "process_audio_file silent_models NoFault ''./uploads/talk.wav'' []
     = (Inr PyNone, [(''output_results.json'', TextFile (json_dumps [OverallEmotion ''happy'']))])"
    by code_simp
  have b: "build_results silent_models ''./uploads/talk.wav'' [] = (Inr [OverallEmotion ''happy''], [])"
    by (simp add: build_results_def silent_models_def demo_models_def best_emotion_def)
  from run_returns_none [of silent_models NoFault "''./uploads/talk.wav''" "[]" "[]" PyNone
      "[(''output_results.json'', TextFile (json_dumps [OverallEmotion ''happy'']))]"] p b
  show ?thesis by blast
qed

text \<open>
  Claim C9 as stated fails: the run over two detected ranges builds a list of two
  records, writes it, and returns \<^verbatim>\<open>None\<close>, not the list.
\<close>

theorem run_returns_results_counterexample:
  "fst (build_results demo_models ''./uploads/talk.wav'' [])
     = Inr [OverallEmotion ''happy'',
            AnnotatedSegment \<lparr>Language = ''EN'', Emotion = ''happy'', Audio_Type = ''speech'',
                              Text = ''hi''\<rparr>]
   \<and> fst (process_audio_file demo_models NoFault ''./uploads/talk.wav'' []) = Inr PyNone
   \<and> fst (process_audio_file demo_models NoFault ''./uploads/talk.wav'' [])
       \<noteq> Inr (PyResults [OverallEmotion ''happy'',
            AnnotatedSegment \<lparr>Language = ''EN'', Emotion = ''happy'', Audio_Type = ''speech'',
                              Text = ''hi''\<rparr>])"
  by (simp add: demo_build process_audio_file_def dump_results_def)

end
